theory Spec2Isabelle
  imports Main
begin

section \<open>JavaScript values and strings\<close>

text \<open>
  Strings are lists of characters (one \<^typ>\<open>char\<close> per code unit of the source text).
  The values that flow through the pipeline (\<open>value?: any\<close>, attribute values, metadata
  entries) are \<open>undefined\<close>, booleans, strings and plain objects; an object keeps its
  own properties in enumeration order.
\<close>

datatype jsval =
    JUndefined
  | JBool bool
  | JString string
  | JObject "(string \<times> jsval) list"

definition dq :: char where "dq = CHR 0x22"
definition sq :: char where "sq = CHR 0x27"
definition backslash :: char where "backslash = CHR 0x5C"
definition newline :: char where "newline = CHR 0x0A"

text \<open>Truthiness (\<open>if (v)\<close>, \<open>!v\<close>, \<open>v || d\<close>, \<open>.filter(Boolean)\<close>).\<close>

fun truthy :: "jsval \<Rightarrow> bool" where
  "truthy JUndefined = False"
| "truthy (JBool b) = b"
| "truthy (JString s) = (s \<noteq> [])"
| "truthy (JObject kvs) = True"

text \<open>\<open>String(v)\<close>, which is also what a template literal \<open>${v}\<close> inserts.\<close>

fun js_to_string :: "jsval \<Rightarrow> string" where
  "js_to_string JUndefined = ''undefined''"
| "js_to_string (JBool b) = (if b then ''true'' else ''false'')"
| "js_to_string (JString s) = s"
| "js_to_string (JObject kvs) = ''[object Object]''"

text \<open>A name that may be \<open>undefined\<close> (a missing \<open>dest\<close>, a destructured
  argument past the end of \<open>args\<close>), as a template literal prints it.\<close>

fun tpl :: "string option \<Rightarrow> string" where
  "tpl None = ''undefined''"
| "tpl (Some s) = s"

text \<open>\<open>Array.prototype.join\<close> on an array of strings; an element that is
  \<open>undefined\<close> is joined as the empty string (\<open>join_elem\<close>).\<close>

fun join_elem :: "string option \<Rightarrow> string" where
  "join_elem None = []"
| "join_elem (Some s) = s"

fun js_join :: "string \<Rightarrow> string list \<Rightarrow> string" where
  "js_join sep [] = []"
| "js_join sep [x] = x"
| "js_join sep (x # y # ys) = x @ sep @ js_join sep (y # ys)"

subsection \<open>\<open>JSON.stringify\<close>\<close>

definition hexdigit :: "nat \<Rightarrow> char" where
  "hexdigit n = ''0123456789abcdef'' ! (n mod 16)"

definition json_escape_char :: "char \<Rightarrow> string" where
  "json_escape_char c =
     (if c = dq then [backslash, dq]
      else if c = backslash then [backslash, backslash]
      else if c = CHR 0x08 then [backslash, CHR ''b'']
      else if c = CHR 0x09 then [backslash, CHR ''t'']
      else if c = CHR 0x0A then [backslash, CHR ''n'']
      else if c = CHR 0x0C then [backslash, CHR ''f'']
      else if c = CHR 0x0D then [backslash, CHR ''r'']
      else if (of_char c :: nat) < 32
        then [backslash, CHR ''u'', CHR ''0'', CHR ''0'',
              hexdigit (of_char c div 16), hexdigit (of_char c)]
      else [c])"

definition json_quote :: "string \<Rightarrow> string" where
  "json_quote s = [dq] @ concat (map json_escape_char s) @ [dq]"

text \<open>\<open>JSON.stringify(v)\<close>: \<open>None\<close> is the result \<open>undefined\<close>; a property whose
  value is \<open>undefined\<close> is left out of an object.\<close>

fun json_stringify :: "jsval \<Rightarrow> string option"
  and json_members :: "(string \<times> jsval) list \<Rightarrow> string list" where
  "json_stringify JUndefined = None"
| "json_stringify (JBool b) = Some (if b then ''true'' else ''false'')"
| "json_stringify (JString s) = Some (json_quote s)"
| "json_stringify (JObject kvs) = Some (''{'' @ js_join '','' (json_members kvs) @ ''}'')"
| "json_members [] = []"
| "json_members (kv # kvs) =
     (case json_stringify (snd kv) of
        None \<Rightarrow> json_members kvs
      | Some s \<Rightarrow> (json_quote (fst kv) @ '':'' @ s) # json_members kvs)"

text \<open>\<open>JSON.stringify\<close> of \<open>inst.args\<close>, an optional array whose elements are
  strings or \<open>undefined\<close> (printed as \<open>null\<close> inside an array).\<close>

definition json_stringify_args :: "string option list option \<Rightarrow> string option" where
  "json_stringify_args a =
     (case a of None \<Rightarrow> None
      | Some xs \<Rightarrow>
          Some (''['' @ js_join '',''
                         (map (\<lambda>x. case x of None \<Rightarrow> ''null'' | Some s \<Rightarrow> json_quote s) xs)
                @ '']''))"

section \<open>The intermediate representation (src/compiler/ssa.ts)\<close>

datatype SSAOpType =
    Alloc | Assign | Load | Store | Call | Branch | Phi | Return
  | CreateElement | CreateText | SetProp | AppendChild | Mount | Patch

text \<open>\<open>metadata?: Record<string, any>\<close> is an optional association list.\<close>

record SSAInstruction =
  op :: SSAOpType
  dest :: "string option"
  args :: "string option list option"
  ivalue :: jsval
  metadata :: "(string \<times> jsval) list option"
  blockId :: "nat option"

record SSABasicBlock =
  bid :: nat
  instructions :: "SSAInstruction list"
  predecessors :: "nat list"
  successors :: "nat list"
  dominates :: "nat list"

text \<open>\<open>blocks\<close> and \<open>variables\<close> are JavaScript \<open>Map\<close>s: association lists in
  insertion order, read with \<^const>\<open>map_of\<close>.\<close>

record SSAIR =
  blocks :: "(nat \<times> SSABasicBlock) list"
  entry :: nat
  variables :: "(string \<times> string) list"
  nextVarId :: nat
  nextBlockId :: nat

text \<open>\<open>inst.metadata?.k\<close>\<close>

definition md :: "SSAInstruction \<Rightarrow> string \<Rightarrow> jsval" where
  "md inst k =
     (case metadata inst of
        None \<Rightarrow> JUndefined
      | Some m \<Rightarrow> (case map_of m k of None \<Rightarrow> JUndefined | Some v \<Rightarrow> v))"

text \<open>\<open>Map.prototype.set\<close>: an existing key keeps its place, a new key goes last.\<close>

fun map_set :: "('k \<times> 'v) list \<Rightarrow> 'k \<Rightarrow> 'v \<Rightarrow> ('k \<times> 'v) list" where
  "map_set [] k v = [(k, v)]"
| "map_set ((k', v') # kvs) k v =
     (if k' = k then (k, v) # kvs else (k', v') # map_set kvs k v)"

section \<open>The code generator (src/compiler/codegen.ts)\<close>

datatype Target = JS | Wasm

datatype error = TypeError | ElementMissingTag | JsonSyntaxError

text \<open>\<open>Partial<CodeGenOptions>\<close>: every field may be absent.\<close>

record PartialCodeGenOptions =
  p_target :: "Target option"
  p_minify :: "bool option"
  p_inlineCache :: "bool option"
  p_staticOptimization :: "bool option"

record CodeGenOptions =
  target :: Target
  minify :: bool
  inlineCache :: bool
  staticOptimization :: bool

text \<open>The fields of a \<open>CodeGenerator\<close> instance. The keys of \<open>varMap\<close> are the
  original names handed to \<open>getVarName\<close>, which may be \<open>undefined\<close>.\<close>

record CodeGenerator =
  options :: CodeGenOptions
  output_buf :: "string list"
  indent :: nat
  varMap :: "(string option \<times> string) list"
  staticCache :: "(string \<times> string option) list"

definition new_CodeGenerator :: "PartialCodeGenOptions \<Rightarrow> CodeGenerator" where
  "new_CodeGenerator opts =
     \<lparr> options = \<lparr> target = (case p_target opts of None \<Rightarrow> JS | Some t \<Rightarrow> t),
                     minify = (case p_minify opts of None \<Rightarrow> True | Some b \<Rightarrow> b),
                     inlineCache = (case p_inlineCache opts of None \<Rightarrow> True | Some b \<Rightarrow> b),
                     staticOptimization =
                       (case p_staticOptimization opts of None \<Rightarrow> True | Some b \<Rightarrow> b) \<rparr>,
       output_buf = [], indent = 0, varMap = [], staticCache = [] \<rparr>"

definition chars :: string where
  "chars = ''abcdefghijklmnopqrstuvwxyz''"

text \<open>The \<open>do { ... } while (n > 0)\<close> loop of \<open>generateShortName\<close>.\<close>

function generateShortName_loop :: "nat \<Rightarrow> string \<Rightarrow> string" where
  "generateShortName_loop n name =
     (let name' = (chars ! (n mod length chars)) # name;
          n' = n div length chars
      in if n' > 0 then generateShortName_loop n' name' else name')"
  by pat_completeness auto
termination
  by (relation "measure (\<lambda>(n, name). n)") (auto simp: chars_def)

declare generateShortName_loop.simps [simp del]

definition generateShortName :: "nat \<Rightarrow> string" where
  "generateShortName index = generateShortName_loop index []"

definition getVarName :: "CodeGenerator \<Rightarrow> string option \<Rightarrow> string option \<times> CodeGenerator" where
  "getVarName g original =
     (case map_of (varMap g) original of
        Some s \<Rightarrow> (Some s, g)
      | None \<Rightarrow>
          if minify (options g)
          then (let short = generateShortName (length (varMap g))
                in (Some short, g\<lparr>varMap := map_set (varMap g) original short\<rparr>))
          else (original, g))"

definition emit :: "CodeGenerator \<Rightarrow> string \<Rightarrow> CodeGenerator" where
  "emit g code =
     (if minify (options g) then g\<lparr>output_buf := output_buf g @ [code]\<rparr>
      else g\<lparr>output_buf := output_buf g @ [concat (replicate (indent g) ''  '') @ code]\<rparr>)"

definition indentInc :: "CodeGenerator \<Rightarrow> CodeGenerator" where
  "indentInc g = g\<lparr>indent := indent g + 1\<rparr>"

definition indentDec :: "CodeGenerator \<Rightarrow> CodeGenerator" where
  "indentDec g = g\<lparr>indent := max 0 (indent g - 1)\<rparr>"


text \<open>\<open>xs[i]\<close>, \<open>undefined\<close> past the end (array destructuring reads this way).\<close>

definition arg_at :: "string option list \<Rightarrow> nat \<Rightarrow> string option" where
  "arg_at xs i = (if i < length xs then xs ! i else None)"

text \<open>\<open>xs.map(a => this.getVarName(a))\<close>, left to right.\<close>

fun getVarNames :: "CodeGenerator \<Rightarrow> string option list \<Rightarrow> string option list \<times> CodeGenerator" where
  "getVarNames g [] = ([], g)"
| "getVarNames g (a # as) =
     (case getVarName g a of (n, g1) \<Rightarrow>
        (case getVarNames g1 as of (ns, g2) \<Rightarrow> (n # ns, g2)))"

definition emitHeader :: "CodeGenerator \<Rightarrow> CodeGenerator" where
  \<open>emitHeader g =
     (let g1 = emit g ''(function(h, mount, patch) {'';
          g2 = indentInc g1;
          g3 = emit g2 ''"use strict";''
      in if staticOptimization (options g3)
         then emit g3 ''const _cache = new Map();''
         else g3)\<close>

definition emitFooter :: "CodeGenerator \<Rightarrow> CodeGenerator" where
  "emitFooter g = emit (indentDec g) ''})(h, mount, patch);''"

definition emitAlloc :: "CodeGenerator \<Rightarrow> SSAInstruction \<Rightarrow> error + CodeGenerator" where
  "emitAlloc g inst =
     (case getVarName g (dest inst) of (d, g1) \<Rightarrow>
        (let v = json_stringify (ivalue inst) in
         if truthy (md inst ''isStatic'') \<and> staticOptimization (options g1)
         then (let cacheKey = ''alloc_'' @ tpl v in
               case map_of (staticCache g1) cacheKey of
                 Some c \<Rightarrow> Inr (emit g1 (''const '' @ tpl d @ '' = '' @ tpl c @ '';''))
               | None \<Rightarrow>
                   (let g2 = emit g1 (''const '' @ tpl d @ '' = '' @ tpl v @ '';'')
                    in Inr (g2\<lparr>staticCache := map_set (staticCache g2) cacheKey d\<rparr>)))
         else Inr (emit g1 (''const '' @ tpl d @ '' = '' @ tpl v @ '';''))))"

definition emitLoad :: "CodeGenerator \<Rightarrow> SSAInstruction \<Rightarrow> error + CodeGenerator" where
  "emitLoad g inst =
     (case getVarName g (dest inst) of (d, g1) \<Rightarrow>
        Inr (emit g1 (''const '' @ tpl d @ '' = '' @ js_to_string (ivalue inst) @ '';'')))"

definition emitStore :: "CodeGenerator \<Rightarrow> SSAInstruction \<Rightarrow> error + CodeGenerator" where
  "emitStore g inst =
     (case args inst of
        None \<Rightarrow> Inl TypeError
      | Some xs \<Rightarrow>
          (case getVarName g (arg_at xs 0) of (t, g1) \<Rightarrow>
           case getVarName g1 (arg_at xs 1) of (v, g2) \<Rightarrow>
             Inr (emit g2 (tpl t @ '' = '' @ tpl v @ '';''))))"

definition emitCall :: "CodeGenerator \<Rightarrow> SSAInstruction \<Rightarrow> error + CodeGenerator" where
  "emitCall g inst =
     (case (case dest inst of
              None \<Rightarrow> (Some ''_'', g)
            | Some d0 \<Rightarrow> if d0 = [] then (Some ''_'', g) else getVarName g (Some d0))
      of (d, g1) \<Rightarrow>
        (case args inst of
           None \<Rightarrow> Inl TypeError
         | Some xs \<Rightarrow>
             (case getVarNames g1 (tl xs) of (ns, g2) \<Rightarrow>
                (let argStr = js_join '', '' (map join_elem ns) in
                 if truthy (md inst ''component'')
                 then Inr (emit g2 (''const '' @ tpl d @ '' = ''
                             @ js_to_string (md inst ''component'') @ ''('' @ argStr @ '');''))
                 else (case getVarName g2 (arg_at xs 0) of (f, g3) \<Rightarrow>
                         Inr (emit g3 (''const '' @ tpl d @ '' = ''
                                @ tpl f @ ''('' @ argStr @ '');'')))))))"

definition emitCreateElement :: "CodeGenerator \<Rightarrow> SSAInstruction \<Rightarrow> error + CodeGenerator" where
  "emitCreateElement g inst =
     (case getVarName g (dest inst) of (d, g1) \<Rightarrow>
        (case args inst of
           None \<Rightarrow> Inl TypeError
         | Some xs \<Rightarrow>
             (let tag = tpl (arg_at xs 0) in
              if truthy (md inst ''isStatic'') \<and> inlineCache (options g1)
              then (let cacheKey = ''el_'' @ tag;
                        g2 = emit g1 (''const '' @ tpl d @ '' = _cache.has('' @ [sq] @ cacheKey
                               @ [sq] @ '') ? _cache.get('' @ [sq] @ cacheKey @ [sq]
                               @ '').cloneNode(true) : (function() {'');
                        g3 = indentInc g2;
                        g4 = emit g3 (''const el = h('' @ [sq] @ tag @ [sq] @ '', {});'');
                        g5 = emit g4 (''_cache.set('' @ [sq] @ cacheKey @ [sq]
                               @ '', el.cloneNode(true));'');
                        g6 = emit g5 ''return el;'';
                        g7 = indentDec g6
                    in Inr (emit g7 ''})();''))
              else Inr (emit g1 (''const '' @ tpl d @ '' = h('' @ [sq] @ tag @ [sq]
                          @ '', {});'')))))"

definition emitCreateText :: "CodeGenerator \<Rightarrow> SSAInstruction \<Rightarrow> error + CodeGenerator" where
  "emitCreateText g inst =
     (case getVarName g (dest inst) of (d, g1) \<Rightarrow>
        (let text = tpl (json_stringify (ivalue inst)) in
         if minify (options g1)
         then Inr (emit g1 (''const '' @ tpl d @ '' = '' @ text @ '';''))
         else Inr (emit g1 (''const '' @ tpl d @ '' = createTextVNode('' @ text @ '');''))))"

definition emitSetProp :: "CodeGenerator \<Rightarrow> SSAInstruction \<Rightarrow> error + CodeGenerator" where
  "emitSetProp g inst =
     (case args inst of
        None \<Rightarrow> Inl TypeError
      | Some xs \<Rightarrow>
          (case getVarName g (arg_at xs 0) of (e, g1) \<Rightarrow>
           case getVarName g1 (arg_at xs 2) of (v, g2) \<Rightarrow>
             (let elVar = tpl e; valVar = tpl v; key = tpl (arg_at xs 1) in
              if truthy (md inst ''isStatic'')
              then Inr (emit g2 (elVar @ ''.props = '' @ elVar @ ''.props || {}; '' @ elVar
                          @ ''.props['' @ [sq] @ key @ [sq] @ ''] = '' @ valVar @ '';''))
              else (let g3 = emit g2 (''if (!'' @ elVar @ ''.props) '' @ elVar
                               @ ''.props = {};'')
                    in Inr (emit g3 (elVar @ ''.props['' @ [sq] @ key @ [sq] @ ''] = ''
                              @ valVar @ '';''))))))"

definition emitAppendChild :: "CodeGenerator \<Rightarrow> SSAInstruction \<Rightarrow> error + CodeGenerator" where
  "emitAppendChild g inst =
     (case args inst of
        None \<Rightarrow> Inl TypeError
      | Some xs \<Rightarrow>
          (case getVarName g (arg_at xs 0) of (p, g1) \<Rightarrow>
           case getVarName g1 (arg_at xs 1) of (c, g2) \<Rightarrow>
             (let parentVar = tpl p; childVar = tpl c;
                  g3 = emit g2 (''if (!'' @ parentVar @ ''.children) '' @ parentVar
                         @ ''.children = [];'')
              in Inr (emit g3 (parentVar @ ''.children.push('' @ childVar @ '');'')))))"

definition emitMount :: "CodeGenerator \<Rightarrow> SSAInstruction \<Rightarrow> error + CodeGenerator" where
  "emitMount g inst =
     (case args inst of
        None \<Rightarrow> Inl TypeError
      | Some xs \<Rightarrow>
          (case getVarName g (arg_at xs 0) of (v, g1) \<Rightarrow>
           case getVarName g1 (arg_at xs 1) of (c, g2) \<Rightarrow>
             Inr (emit g2 (''mount('' @ tpl v @ '', '' @ tpl c @ '');''))))"

definition emitPatch :: "CodeGenerator \<Rightarrow> SSAInstruction \<Rightarrow> error + CodeGenerator" where
  "emitPatch g inst =
     (case args inst of
        None \<Rightarrow> Inl TypeError
      | Some xs \<Rightarrow>
          (case getVarName g (arg_at xs 0) of (ov, g1) \<Rightarrow>
           case getVarName g1 (arg_at xs 1) of (nv, g2) \<Rightarrow>
           case getVarName g2 (arg_at xs 2) of (c, g3) \<Rightarrow>
             Inr (emit g3 (''patch('' @ tpl ov @ '', '' @ tpl nv @ '', '' @ tpl c @ '');''))))"

definition emitReturn :: "CodeGenerator \<Rightarrow> SSAInstruction \<Rightarrow> error + CodeGenerator" where
  "emitReturn g inst =
     (case args inst of
        None \<Rightarrow> Inr (emit g ''return;'')
      | Some xs \<Rightarrow>
          if length xs > 0
          then (case getVarName g (arg_at xs 0) of (r, g1) \<Rightarrow>
                  Inr (emit g1 (''return '' @ tpl r @ '';'')))
          else Inr (emit g ''return;''))"

definition emitInstruction :: "CodeGenerator \<Rightarrow> SSAInstruction \<Rightarrow> error + CodeGenerator" where
  "emitInstruction g inst =
     (case op inst of
        Alloc \<Rightarrow> emitAlloc g inst
      | Load \<Rightarrow> emitLoad g inst
      | Store \<Rightarrow> emitStore g inst
      | Call \<Rightarrow> emitCall g inst
      | CreateElement \<Rightarrow> emitCreateElement g inst
      | CreateText \<Rightarrow> emitCreateText g inst
      | SetProp \<Rightarrow> emitSetProp g inst
      | AppendChild \<Rightarrow> emitAppendChild g inst
      | Mount \<Rightarrow> emitMount g inst
      | Patch \<Rightarrow> emitPatch g inst
      | Return \<Rightarrow> emitReturn g inst
      | _ \<Rightarrow> Inr g)"

text \<open>\<open>for (const inst of entryBlock.instructions) this.emitInstruction(inst)\<close>;
  a throw leaves the loop.\<close>

fun emitInstructions :: "CodeGenerator \<Rightarrow> SSAInstruction list \<Rightarrow> error + CodeGenerator" where
  "emitInstructions g [] = Inr g"
| "emitInstructions g (inst # insts) =
     (case emitInstruction g inst of
        Inl e \<Rightarrow> Inl e
      | Inr g1 \<Rightarrow> emitInstructions g1 insts)"

definition emitBlocks :: "CodeGenerator \<Rightarrow> SSAIR \<Rightarrow> error + CodeGenerator" where
  "emitBlocks g ir =
     (case map_of (blocks ir) (entry ir) of
        None \<Rightarrow> Inr g
      | Some entryBlock \<Rightarrow>
          (let g1 = emit g ''return (function render(props, state) {'';
               g2 = indentInc g1
           in case emitInstructions g2 (instructions entryBlock) of
                Inl e \<Rightarrow> Inl e
              | Inr g3 \<Rightarrow> Inr (emit (indentDec g3) ''});'')))"

text \<open>\<open>generate\<close> returns the joined output; the instance it leaves behind is
  returned with it.\<close>

definition generate :: "CodeGenerator \<Rightarrow> SSAIR \<Rightarrow> error + (string \<times> CodeGenerator)" where
  "generate g ir =
     (let g0 = g\<lparr>output_buf := [], indent := 0\<rparr>;
          g1 = emitHeader g0
      in case emitBlocks g1 ir of
           Inl e \<Rightarrow> Inl e
         | Inr g2 \<Rightarrow>
             (let g3 = emitFooter g2
              in Inr (js_join (if minify (options g3) then [] else [newline]) (output_buf g3),
                      g3)))"

definition generateCode :: "SSAIR \<Rightarrow> PartialCodeGenOptions \<Rightarrow> error + string" where
  "generateCode ir opts =
     (case generate (new_CodeGenerator opts) ir of
        Inl e \<Rightarrow> Inl e
      | Inr (code, g) \<Rightarrow> Inr code)"

definition generateOptimizedCode :: "SSAIR \<Rightarrow> error + string" where
  "generateOptimizedCode ir =
     generateCode ir \<lparr> p_target = None, p_minify = Some True, p_inlineCache = Some True,
                        p_staticOptimization = Some True \<rparr>"

definition generateDebugCode :: "SSAIR \<Rightarrow> error + string" where
  "generateDebugCode ir =
     generateCode ir \<lparr> p_target = None, p_minify = Some False, p_inlineCache = Some False,
                        p_staticOptimization = Some False \<rparr>"

section \<open>The syntax tree (src/compiler/parser.ts)\<close>

record SourceLocation =
  loc_start :: "nat \<times> nat"
  loc_end :: "nat \<times> nat"

datatype ASTNodeType = Program | Element | Component | Text | Expression | Fragment

text \<open>An \<open>ASTNode\<close> object: every field but \<open>type\<close> may be absent. Attribute values
  are \<open>true\<close> or strings.\<close>

datatype ASTNode =
  ASTNode (ntype: ASTNodeType)
          (tag: "string option")
          (attributes: "(string \<times> jsval) list option")
          (children: "ASTNode list option")
          (nvalue: "string option")
          (expression: "string option")
          (isStatic: "bool option")
          (loc: "SourceLocation option")

section \<open>The tokenizer (src/compiler/parser.ts)\<close>

text \<open>The characters that \<open>/\s/\<close> matches and \<open>String.prototype.trim\<close> strips
  (those below 256).\<close>

definition is_space :: "char \<Rightarrow> bool" where
  "is_space c = (c = CHR 0x09 \<or> c = CHR 0x0A \<or> c = CHR 0x0B \<or> c = CHR 0x0C
                 \<or> c = CHR 0x0D \<or> c = CHR 0x20 \<or> c = CHR 0xA0)"

definition trim :: "string \<Rightarrow> string" where
  "trim s = rev (dropWhile is_space (rev (dropWhile is_space s)))"

text \<open>\<open>/[a-zA-Z0-9_]/\<close> and \<open>/[a-zA-Z0-9_-]/\<close>\<close>

definition is_word_char :: "char \<Rightarrow> bool" where
  "is_word_char c =
     (let n = (of_char c :: nat)
      in (97 \<le> n \<and> n \<le> 122) \<or> (65 \<le> n \<and> n \<le> 90) \<or> (48 \<le> n \<and> n \<le> 57)
         \<or> c = CHR ''_'')"

definition is_ident_char :: "char \<Rightarrow> bool" where
  "is_ident_char c = (is_word_char c \<or> c = CHR ''-'')"

datatype TokenType = TOpen | TSelfClose | TClose | TText | TExpr | TEof

text \<open>
  The \<open>value\<close> of a token is a string. For an open or self-closing tag the source
  stores \<open>JSON.stringify({ tag, attributes })\<close> and the parser reads it back with
  \<open>JSON.parse\<close>; the model keeps the object itself (\<open>TagValue\<close>), which is what that
  round trip returns for a string tag and attribute values that are \<open>true\<close> or strings.
\<close>

datatype TokenValue = StrValue string | TagValue string "(string \<times> jsval) list"

record Token =
  ttype :: TokenType
  tvalue :: TokenValue
  tloc :: SourceLocation

record Tokenizer =
  source :: string
  pos :: nat
  line :: nat
  column :: nat

definition new_Tokenizer :: "string \<Rightarrow> Tokenizer" where
  "new_Tokenizer src = \<lparr> source = trim src, pos = 0, line = 1, column = 1 \<rparr>"

text \<open>\<open>peek\<close> returns the empty string at and past the end of the input
  (\<open>None\<close>).\<close>

definition peek :: "Tokenizer \<Rightarrow> char option" where
  "peek t = (if pos t < length (source t) then Some (source t ! pos t) else None)"

text \<open>\<open>advance\<close> returns \<open>undefined\<close> (\<open>None\<close>) at and past the end of the
  input, and moves \<open>pos\<close> and \<open>column\<close> all the same.\<close>

definition advance :: "Tokenizer \<Rightarrow> char option \<times> Tokenizer" where
  "advance t =
     (let c = (if pos t < length (source t) then Some (source t ! pos t) else None);
          t1 = t\<lparr>pos := pos t + 1\<rparr>
      in if c = Some newline then (c, t1\<lparr>line := line t1 + 1, column := 1\<rparr>)
         else (c, t1\<lparr>column := column t1 + 1\<rparr>))"

text \<open>\<open>s[i]\<close> on a string, \<open>undefined\<close> out of range.\<close>

definition arg_char :: "string \<Rightarrow> nat \<Rightarrow> char option" where
  "arg_char s i = (if i < length s then Some (s ! i) else None)"

function skipWhitespace :: "Tokenizer \<Rightarrow> Tokenizer" where
  "skipWhitespace t =
     (if pos t < length (source t) \<and> (case peek t of None \<Rightarrow> False | Some c \<Rightarrow> is_space c)
      then skipWhitespace (snd (advance t)) else t)"
  by pat_completeness auto
termination
  by (relation "measure (\<lambda>t. length (source t) - pos t)") (auto simp: advance_def Let_def)

declare skipWhitespace.simps [simp del]

definition getLocation :: "Tokenizer \<Rightarrow> SourceLocation" where
  "getLocation t = \<lparr> loc_start = (line t, column t), loc_end = (line t, column t) \<rparr>"

text \<open>\<open>while (this.peek() && p(this.peek())) acc += this.advance()\<close>: the scans that
  collect a tag name, an attribute name, a quoted or bare attribute value, a close-tag
  name and a text run. Each stops at the end of the input.\<close>

function readWhile :: "(char \<Rightarrow> bool) \<Rightarrow> Tokenizer \<Rightarrow> string \<Rightarrow> string \<times> Tokenizer" where
  "readWhile p t acc =
     (case peek t of
        None \<Rightarrow> (acc, t)
      | Some c \<Rightarrow> if p c then readWhile p (snd (advance t)) (acc @ [c]) else (acc, t))"
  by pat_completeness auto
termination
  by (relation "measure (\<lambda>(p, t, acc). length (source t) - pos t)")
     (auto simp: advance_def peek_def Let_def split: if_splits)

declare readWhile.simps [simp del]

text \<open>An index key of an object (\<open>"0"\<close>, \<open>"7"\<close>, \<open>"42"\<close>, ... up to \<open>2^32 - 2\<close>):
  such keys are enumerated first, in ascending order; the other keys follow in the
  order in which they were created.\<close>

definition is_digit :: "char \<Rightarrow> bool" where
  "is_digit c = (48 \<le> (of_char c :: nat) \<and> (of_char c :: nat) \<le> 57)"

text \<open>Numeric order on decimal numerals without leading zeros: the shorter one is
  smaller, numerals of the same length compare digit by digit.\<close>

fun digits_less :: "string \<Rightarrow> string \<Rightarrow> bool" where
  "digits_less (a # as) (b # bs) =
     ((of_char a :: nat) < of_char b \<or> (a = b \<and> digits_less as bs))"
| "digits_less as bs = False"

definition numeral_less :: "string \<Rightarrow> string \<Rightarrow> bool" where
  "numeral_less s k = (length s < length k \<or> (length s = length k \<and> digits_less s k))"

definition is_array_index :: "string \<Rightarrow> bool" where
  "is_array_index s =
     (s \<noteq> [] \<and> list_all is_digit s \<and> (s = ''0'' \<or> hd s \<noteq> CHR ''0'')
      \<and> numeral_less s ''4294967295'')"

fun insert_index_key :: "(string \<times> jsval) list \<Rightarrow> string \<Rightarrow> jsval \<Rightarrow> (string \<times> jsval) list" where
  "insert_index_key [] k v = [(k, v)]"
| "insert_index_key (kv # kvs) k v =
     (if is_array_index (fst kv) \<and> numeral_less (fst kv) k
      then kv # insert_index_key kvs k v
      else (k, v) # kv # kvs)"

text \<open>\<open>attributes[name] = value\<close> on a plain object whose values are \<open>true\<close> or
  strings. Assigning such a value to \<open>__proto__\<close> changes nothing.\<close>

definition obj_set :: "(string \<times> jsval) list \<Rightarrow> string \<Rightarrow> jsval \<Rightarrow> (string \<times> jsval) list" where
  "obj_set kvs k v =
     (if k = ''__proto__'' then kvs
      else if k \<in> fst ` set kvs then map_set kvs k v
      else if is_array_index k then insert_index_key kvs k v
      else kvs @ [(k, v)])"

text \<open>
  The brace scan of \<open>readAttribute\<close>: \<open>while (depth > 0) { ... }\<close>. It has no test
  for the end of the input, and \<open>expr += char\<close> appends the text \<open>undefined\<close> once
  \<open>advance\<close> has run past the end. The loop may run forever, so its result is an
  option: \<open>None\<close> means that it does not return.
\<close>

partial_function (option) attrBraceLoop :: "Tokenizer \<Rightarrow> string \<Rightarrow> nat \<Rightarrow> (string \<times> Tokenizer) option" where
  "attrBraceLoop t expr depth =
     (if depth > 0
      then (case advance t of (c, t1) \<Rightarrow>
              (let d1 = (if c = Some CHR ''{'' then depth + 1 else depth);
                   d2 = (if c = Some CHR ''}'' then d1 - 1 else d1)
               in attrBraceLoop t1
                    (if d2 > 0 then expr @ (case c of None \<Rightarrow> ''undefined'' | Some ch \<Rightarrow> [ch])
                     else expr)
                    d2))
      else Some (expr, t))"

declare attrBraceLoop.simps [code]

definition readAttribute :: "Tokenizer \<Rightarrow> ((string \<times> jsval) \<times> Tokenizer) option" where
  "readAttribute t =
     (case readWhile is_ident_char t [] of (name, t1) \<Rightarrow>
        (let t2 = skipWhitespace t1 in
         if peek t2 \<noteq> Some CHR ''='' then Some ((name, JBool True), t2)
         else (let t3 = skipWhitespace (snd (advance t2)) in
               if peek t3 = Some dq \<or> peek t3 = Some sq
               then (case advance t3 of (quote, t4) \<Rightarrow>
                       (case readWhile (\<lambda>c. Some c \<noteq> quote) t4 [] of (v, t5) \<Rightarrow>
                          Some ((name, JString v), snd (advance t5))))
               else if peek t3 = Some CHR ''{''
               then (case attrBraceLoop (snd (advance t3)) [] 1 of
                       None \<Rightarrow> None
                     | Some (expr, t4) \<Rightarrow> Some ((name, JString (''{'' @ expr @ ''}'')), t4))
               else (case readWhile is_word_char t3 [] of (v, t4) \<Rightarrow>
                       Some ((name, JString v), t4)))))"

text \<open>The attribute loop of \<open>readOpenTag\<close>:
  \<open>while (this.peek() && this.peek() !== '>' && this.peek() !== '/')\<close>. Nothing makes
  \<open>readAttribute\<close> consume a character, so this loop may run forever as well.\<close>

partial_function (option) readAttributes ::
  "Tokenizer \<Rightarrow> (string \<times> jsval) list \<Rightarrow> ((string \<times> jsval) list \<times> Tokenizer) option" where
  "readAttributes t attrs =
     (if peek t \<noteq> None \<and> peek t \<noteq> Some CHR ''>'' \<and> peek t \<noteq> Some CHR ''/''
      then (case readAttribute t of
              None \<Rightarrow> None
            | Some (attr, t1) \<Rightarrow>
                readAttributes (skipWhitespace t1) (obj_set attrs (fst attr) (snd attr)))
      else Some (attrs, t))"

declare readAttributes.simps [code]

definition readOpenTag :: "Tokenizer \<Rightarrow> (Token \<times> Tokenizer) option" where
  "readOpenTag t =
     (let l = getLocation t;
          t1 = skipWhitespace (snd (advance t))
      in case readWhile is_ident_char t1 [] of (tagName, t2) \<Rightarrow>
           (case readAttributes (skipWhitespace t2) [] of
              None \<Rightarrow> None
            | Some (attrs, t3) \<Rightarrow>
                (let (ty, t4) = (if peek t3 = Some CHR ''/'' then (TSelfClose, snd (advance t3))
                                 else (TOpen, t3));
                     t5 = (if peek t4 = Some CHR ''>'' then snd (advance t4) else t4)
                 in Some (\<lparr> ttype = ty, tvalue = TagValue tagName attrs, tloc = l \<rparr>, t5))))"

definition readCloseTag :: "Tokenizer \<Rightarrow> Token \<times> Tokenizer" where
  "readCloseTag t =
     (let l = getLocation t;
          t1 = snd (advance (snd (advance t)))
      in case readWhile (\<lambda>c. c \<noteq> CHR ''>'') t1 [] of (tagName, t2) \<Rightarrow>
           (let t3 = (if peek t2 = Some CHR ''>'' then snd (advance t2) else t2)
            in (\<lparr> ttype = TClose, tvalue = StrValue (trim tagName), tloc = l \<rparr>, t3)))"

text \<open>The brace scan of \<open>readExpression\<close>:
  \<open>while (depth > 0 && this.pos < this.source.length)\<close>.\<close>

function exprBraceLoop :: "Tokenizer \<Rightarrow> string \<Rightarrow> nat \<Rightarrow> string \<times> Tokenizer" where
  "exprBraceLoop t expr depth =
     (if depth > 0 \<and> pos t < length (source t)
      then (case advance t of (c, t1) \<Rightarrow>
              (let d1 = (if c = Some CHR ''{'' then depth + 1 else depth);
                   d2 = (if c = Some CHR ''}'' then d1 - 1 else d1)
               in exprBraceLoop t1
                    (if d2 > 0 then expr @ (case c of None \<Rightarrow> ''undefined'' | Some ch \<Rightarrow> [ch])
                     else expr)
                    d2))
      else (expr, t))"
  by pat_completeness auto
termination
  by (relation "measure (\<lambda>(t, expr, depth). length (source t) - pos t)")
     (auto simp: advance_def Let_def split: if_splits)

declare exprBraceLoop.simps [simp del]

definition readExpression :: "Tokenizer \<Rightarrow> Token \<times> Tokenizer" where
  "readExpression t =
     (let l = getLocation t
      in case exprBraceLoop (snd (advance t)) [] 1 of (expr, t1) \<Rightarrow>
           (\<lparr> ttype = TExpr, tvalue = StrValue (trim expr), tloc = l \<rparr>, t1))"

definition readText :: "Tokenizer \<Rightarrow> Token \<times> Tokenizer" where
  "readText t =
     (let l = getLocation t
      in case readWhile (\<lambda>c. c \<noteq> CHR ''<'' \<and> c \<noteq> CHR ''{'') t [] of (text, t1) \<Rightarrow>
           (\<lparr> ttype = TText, tvalue = StrValue (trim text), tloc = l \<rparr>, t1))"

text \<open>The main loop of \<open>tokenize\<close>, with the tokens pushed so far.\<close>

partial_function (option) tokenizeLoop :: "Tokenizer \<Rightarrow> Token list \<Rightarrow> (Token list \<times> Tokenizer) option" where
  "tokenizeLoop t tokens =
     (if pos t < length (source t)
      then (let t1 = skipWhitespace t in
            if peek t1 = Some CHR ''<''
            then (if arg_char (source t1) (pos t1 + 1) = Some CHR ''/''
                  then (case readCloseTag t1 of (tok, t2) \<Rightarrow> tokenizeLoop t2 (tokens @ [tok]))
                  else (case readOpenTag t1 of
                          None \<Rightarrow> None
                        | Some (tok, t2) \<Rightarrow> tokenizeLoop t2 (tokens @ [tok])))
            else if peek t1 = Some CHR ''{''
            then (case readExpression t1 of (tok, t2) \<Rightarrow> tokenizeLoop t2 (tokens @ [tok]))
            else (case readText t1 of (tok, t2) \<Rightarrow> tokenizeLoop t2 (tokens @ [tok])))
      else Some (tokens, t))"

declare tokenizeLoop.simps [code]

definition tokenize :: "Tokenizer \<Rightarrow> Token list option" where
  "tokenize t =
     (case tokenizeLoop t [] of
        None \<Rightarrow> None
      | Some (tokens, t1) \<Rightarrow>
          Some (tokens @ [\<lparr> ttype = TEof, tvalue = StrValue [], tloc = getLocation t1 \<rparr>]))"

section \<open>The SSA builder (src/compiler/ssa.ts)\<close>

text \<open>The fields of an \<open>SSABuilder\<close> instance. \<open>currentBlock\<close> is a reference to a
  block object that is also stored in \<open>ir.blocks\<close>; the model keeps the blocks in
  \<open>ir.blocks\<close> only and holds the id of the current one, so that an instruction pushed
  through \<open>currentBlock\<close> is seen through \<open>ir.blocks\<close>, as in the source.\<close>

record SSABuilder =
  ir :: SSAIR
  currentBlock :: nat
  varCounter :: nat
  blockCounter :: nat

definition createBlock :: "SSABuilder \<Rightarrow> nat \<times> SSABuilder" where
  "createBlock b =
     (let block = \<lparr> bid = blockCounter b, instructions = [], predecessors = [],
                      successors = [], dominates = [] \<rparr>;
          b1 = b\<lparr>blockCounter := blockCounter b + 1\<rparr>
      in (bid block, b1\<lparr>ir := (ir b1)\<lparr>blocks := map_set (blocks (ir b1)) (bid block) block\<rparr>\<rparr>))"

definition new_SSABuilder :: SSABuilder where
  "new_SSABuilder =
     (let b0 = \<lparr> ir = \<lparr> blocks = [], entry = 0, variables = [], nextVarId = 0,
                          nextBlockId = 0 \<rparr>,
                   currentBlock = 0, varCounter = 0, blockCounter = 0 \<rparr>
      in case createBlock b0 of (blk, b1) \<Rightarrow>
           (let b2 = b1\<lparr>currentBlock := blk\<rparr>
            in b2\<lparr>ir := (ir b2)\<lparr>entry := blk\<rparr>\<rparr>))"

text \<open>Decimal digits of a number, as a template literal prints \<open>${n}\<close>.\<close>

function string_of_nat :: "nat \<Rightarrow> string" where
  "string_of_nat n =
     (if n < 10 then [''0123456789'' ! n]
      else string_of_nat (n div 10) @ [''0123456789'' ! (n mod 10)])"
  by pat_completeness auto
termination
  by (relation "measure (\<lambda>n. n)") auto

declare string_of_nat.simps [simp del]

definition newVar :: "SSABuilder \<Rightarrow> string \<Rightarrow> string \<times> SSABuilder" where
  "newVar b prefix = (prefix @ string_of_nat (varCounter b), b\<lparr>varCounter := varCounter b + 1\<rparr>)"

text \<open>\<open>this.currentBlock.instructions.push(instruction)\<close>. The string the method returns
  (\<open>instruction.dest || ''\<close>) is used by no caller.\<close>

definition push_instruction ::
  "nat \<Rightarrow> SSAInstruction \<Rightarrow> (nat \<times> SSABasicBlock) list \<Rightarrow> (nat \<times> SSABasicBlock) list" where
  "push_instruction cur inst bs =
     map (\<lambda>kb. if fst kb = cur
                then (fst kb, (snd kb)\<lparr>instructions := instructions (snd kb) @ [inst]\<rparr>)
                else kb) bs"

definition ssa_emit :: "SSABuilder \<Rightarrow> SSAInstruction \<Rightarrow> SSABuilder" where
  "ssa_emit b inst = b\<lparr>ir := (ir b)\<lparr>blocks := push_instruction (currentBlock b) inst (blocks (ir b))\<rparr>\<rparr>"

definition of_bool_option :: "bool option \<Rightarrow> jsval" where
  "of_bool_option x = (case x of None \<Rightarrow> JUndefined | Some v \<Rightarrow> JBool v)"

definition of_string_option :: "string option \<Rightarrow> jsval" where
  "of_string_option x = (case x of None \<Rightarrow> JUndefined | Some s \<Rightarrow> JString s)"

text \<open>\<open>typeof v === 'string' && v.startsWith(c)\<close> and \<open>... && v.endsWith(c)\<close>\<close>

fun startsWith :: "jsval \<Rightarrow> char \<Rightarrow> bool" where
  "startsWith (JString (c # cs)) d = (c = d)"
| "startsWith v d = False"

fun endsWith :: "jsval \<Rightarrow> char \<Rightarrow> bool" where
  "endsWith (JString (c # cs)) d = (last (c # cs) = d)"
| "endsWith v d = False"

definition visitValue :: "SSABuilder \<Rightarrow> jsval \<Rightarrow> string \<times> SSABuilder" where
  "visitValue b v =
     (if startsWith v CHR ''{'' \<and> endsWith v CHR ''}''
      then (let expr = (case v of JString s \<Rightarrow> butlast (tl s) | _ \<Rightarrow> []) in
            case newVar b ''val'' of (d, b1) \<Rightarrow>
              (d, ssa_emit b1 \<lparr> op = Load, dest = Some d, args = None, ivalue = JString expr,
                                metadata = Some [(''isStatic'', JBool False)],
                                blockId = None \<rparr>))
      else (case newVar b ''const'' of (d, b1) \<Rightarrow>
              (d, ssa_emit b1 \<lparr> op = Alloc, dest = Some d, args = None, ivalue = v,
                                metadata = Some [(''isStatic'', JBool True)],
                                blockId = None \<rparr>)))"

text \<open>The loop over \<open>Object.entries(node.attributes)\<close> in \<open>visitElement\<close>.\<close>

fun visitAttributes :: "SSABuilder \<Rightarrow> string \<Rightarrow> (string \<times> jsval) list \<Rightarrow> SSABuilder" where
  "visitAttributes b d [] = b"
| "visitAttributes b d (kv # kvs) =
     (case visitValue b (snd kv) of (valueVar, b1) \<Rightarrow>
        visitAttributes
          (ssa_emit b1 \<lparr> op = SetProp, dest = None,
                           args = Some [Some d, Some (fst kv), Some valueVar],
                           ivalue = JUndefined,
                           metadata = Some [(''key'', JString (fst kv)),
                                            (''isStatic'', JBool (\<not> startsWith (snd kv) CHR ''{''))],
                           blockId = None \<rparr>)
          d kvs)"

definition visitText :: "SSABuilder \<Rightarrow> ASTNode \<Rightarrow> string \<times> SSABuilder" where
  "visitText b node =
     (case newVar b ''txt'' of (d, b1) \<Rightarrow>
        (d, ssa_emit b1 \<lparr> op = CreateText, dest = Some d, args = None,
                          ivalue = of_string_option (nvalue node),
                          metadata = Some [(''isStatic'', JBool True)], blockId = None \<rparr>))"

definition visitExpression :: "SSABuilder \<Rightarrow> ASTNode \<Rightarrow> string \<times> SSABuilder" where
  "visitExpression b node =
     (case newVar b ''expr'' of (d, b1) \<Rightarrow>
        (d, ssa_emit b1 \<lparr> op = Load, dest = Some d, args = None,
                          ivalue = of_string_option (expression node),
                          metadata = Some [(''isStatic'', JBool False)], blockId = None \<rparr>))"

definition visitComponent :: "SSABuilder \<Rightarrow> ASTNode \<Rightarrow> string \<times> SSABuilder" where
  "visitComponent b node =
     (case newVar b ''comp'' of (d, b1) \<Rightarrow>
      case newVar b1 ''props'' of (propsVar, b2) \<Rightarrow>
        (let b3 = ssa_emit b2 \<lparr> op = Alloc, dest = Some propsVar, args = None,
                                ivalue = JObject (case attributes node of None \<Rightarrow> []
                                                  | Some kvs \<Rightarrow> kvs),
                                metadata = None, blockId = None \<rparr>;
             b4 = ssa_emit b3 \<lparr> op = Call, dest = Some d,
                                args = Some [tag node, Some propsVar], ivalue = JUndefined,
                                metadata = Some [(''component'', of_string_option (tag node))],
                                blockId = None \<rparr>
         in (d, b4)))"

text \<open>\<open>results[results.length - 1] || ''\<close>\<close>

definition last_or_empty :: "string list \<Rightarrow> string" where
  "last_or_empty rs = (if rs = [] then [] else last rs)"

text \<open>
  The recursive visitors. \<open>visitNodes\<close> is \<open>children.map(c => this.visitNode(c))\<close>;
  \<open>visitElementChildren\<close> is the \<open>for (const child of node.children)\<close> loop of
  \<open>visitElement\<close>. A throw (\<open>Element node missing tag\<close>) ends the traversal.
\<close>

fun visitNode :: "SSABuilder \<Rightarrow> ASTNode \<Rightarrow> error + (string \<times> SSABuilder)"
  and visitNodes :: "SSABuilder \<Rightarrow> ASTNode list \<Rightarrow> error + (string list \<times> SSABuilder)"
  and visitElementChildren :: "SSABuilder \<Rightarrow> string \<Rightarrow> ASTNode list \<Rightarrow> error + SSABuilder"
where
  "visitNode b (ASTNode ty tg at ch v e s l) =
     (case ty of
        Program \<Rightarrow>
          (case (case ch of None \<Rightarrow> Inr ([], b) | Some cs \<Rightarrow> visitNodes b cs) of
             Inl err \<Rightarrow> Inl err
           | Inr (results, b1) \<Rightarrow> Inr (last_or_empty (filter (\<lambda>r. r \<noteq> []) results), b1))
      | Element \<Rightarrow>
          (if tg = None \<or> tg = Some [] then Inl ElementMissingTag
           else (case newVar b ''el'' of (d, b1) \<Rightarrow>
                  (let b2 = ssa_emit b1 \<lparr> op = CreateElement, dest = Some d, args = Some [tg],
                                          ivalue = JUndefined,
                                          metadata = Some [(''tag'', of_string_option tg),
                                                           (''isStatic'', of_bool_option s)],
                                          blockId = None \<rparr>;
                       b3 = (case at of None \<Rightarrow> b2 | Some kvs \<Rightarrow> visitAttributes b2 d kvs)
                   in case (case ch of None \<Rightarrow> Inr b3
                            | Some cs \<Rightarrow> visitElementChildren b3 d cs) of
                        Inl err \<Rightarrow> Inl err
                      | Inr b4 \<Rightarrow> Inr (d, b4))))
      | Text \<Rightarrow> Inr (visitText b (ASTNode ty tg at ch v e s l))
      | Expression \<Rightarrow> Inr (visitExpression b (ASTNode ty tg at ch v e s l))
      | Component \<Rightarrow> Inr (visitComponent b (ASTNode ty tg at ch v e s l))
      | Fragment \<Rightarrow>
          (case newVar b ''frag'' of (d, b1) \<Rightarrow>
             (case (case ch of None \<Rightarrow> Inr ([], b1) | Some cs \<Rightarrow> visitNodes b1 cs) of
                Inl err \<Rightarrow> Inl err
              | Inr (results, b2) \<Rightarrow>
                  Inr (d, ssa_emit b2 \<lparr> op = Alloc, dest = Some d,
                                         args = Some (map Some results), ivalue = JUndefined,
                                         metadata = Some [(''type'', JString ''fragment'')],
                                         blockId = None \<rparr>))))"
| "visitNodes b [] = Inr ([], b)"
| "visitNodes b (c # cs) =
     (case visitNode b c of
        Inl err \<Rightarrow> Inl err
      | Inr (r, b1) \<Rightarrow>
          (case visitNodes b1 cs of
             Inl err \<Rightarrow> Inl err
           | Inr (rs, b2) \<Rightarrow> Inr (r # rs, b2)))"
| "visitElementChildren b d [] = Inr b"
| "visitElementChildren b d (child # cs) =
     (case visitNode b child of
        Inl err \<Rightarrow> Inl err
      | Inr (childVar, b1) \<Rightarrow>
          visitElementChildren
            (if childVar \<noteq> []
             then ssa_emit b1 \<lparr> op = AppendChild, dest = None,
                                 args = Some [Some d, Some childVar], ivalue = JUndefined,
                                 metadata = None, blockId = None \<rparr>
             else b1)
            d cs)"

subsection \<open>The optimizer passes\<close>

definition all_instructions :: "SSAIR \<Rightarrow> SSAInstruction list" where
  "all_instructions i = concat (map (\<lambda>kb. instructions (snd kb)) (blocks i))"

text \<open>The \<open>used\<close> set of \<open>deadCodeElimination\<close>: every argument of every instruction.\<close>

definition used_names :: "SSAInstruction list \<Rightarrow> string option list" where
  "used_names insts = concat (map (\<lambda>inst. case args inst of None \<Rightarrow> [] | Some xs \<Rightarrow> xs) insts)"

definition dce_keep :: "string option list \<Rightarrow> SSAInstruction \<Rightarrow> bool" where
  "dce_keep used inst =
     (dest inst = None \<or> dest inst = Some [] \<or> dest inst \<in> set used
      \<or> op inst = Call \<or> op inst = Store)"

definition deadCodeElimination :: "SSABuilder \<Rightarrow> SSABuilder" where
  "deadCodeElimination b =
     (let used = used_names (all_instructions (ir b))
      in b\<lparr>ir := (ir b)\<lparr>blocks :=
            map (\<lambda>kb. (fst kb, (snd kb)\<lparr>instructions := filter (dce_keep used) (instructions (snd kb))\<rparr>))
                (blocks (ir b))\<rparr>\<rparr>)"

text \<open>First loop of \<open>constantFolding\<close>: the destinations of the static \<open>alloc\<close>s.\<close>

fun collect_constants ::
  "(string option \<times> jsval) list \<Rightarrow> SSAInstruction list \<Rightarrow> (string option \<times> jsval) list" where
  "collect_constants cs [] = cs"
| "collect_constants cs (inst # insts) =
     collect_constants
       (if op inst = Alloc \<and> truthy (md inst ''isStatic'')
        then map_set cs (dest inst) (ivalue inst) else cs)
       insts"

text \<open>Second loop: \<open>inst.args.map(...)\<close> with the constants table and the variable
  counter threaded through the arguments, the instructions and the blocks.\<close>

fun fold_args ::
  "(string option \<times> jsval) list \<times> nat \<Rightarrow> string option list
     \<Rightarrow> string option list \<times> (string option \<times> jsval) list \<times> nat" where
  "fold_args (cs, n) [] = ([], cs, n)"
| "fold_args (cs, n) (a # as) =
     (case map_of cs a of
        Some val \<Rightarrow>
          (let fresh = ''fold'' @ string_of_nat n
           in case fold_args (map_set cs (Some fresh) val, n + 1) as of
                (as', st) \<Rightarrow> (Some fresh # as', st))
      | None \<Rightarrow> (case fold_args (cs, n) as of (as', st) \<Rightarrow> (a # as', st)))"

fun fold_instructions ::
  "(string option \<times> jsval) list \<times> nat \<Rightarrow> SSAInstruction list
     \<Rightarrow> SSAInstruction list \<times> (string option \<times> jsval) list \<times> nat" where
  "fold_instructions st [] = ([], st)"
| "fold_instructions st (inst # insts) =
     (case (case args inst of
              None \<Rightarrow> (inst, st)
            | Some xs \<Rightarrow> (case fold_args st xs of (xs', st1) \<Rightarrow> (inst\<lparr>args := Some xs'\<rparr>, st1)))
      of (inst', st1) \<Rightarrow>
        (case fold_instructions st1 insts of (insts', st2) \<Rightarrow> (inst' # insts', st2)))"

fun fold_blocks ::
  "(string option \<times> jsval) list \<times> nat \<Rightarrow> (nat \<times> SSABasicBlock) list
     \<Rightarrow> (nat \<times> SSABasicBlock) list \<times> (string option \<times> jsval) list \<times> nat" where
  "fold_blocks st [] = ([], st)"
| "fold_blocks st (kb # kbs) =
     (case fold_instructions st (instructions (snd kb)) of (insts', st1) \<Rightarrow>
        (case fold_blocks st1 kbs of (kbs', st2) \<Rightarrow>
           ((fst kb, (snd kb)\<lparr>instructions := insts'\<rparr>) # kbs', st2)))"

definition constantFolding :: "SSABuilder \<Rightarrow> SSABuilder" where
  "constantFolding b =
     (let constants = collect_constants [] (all_instructions (ir b))
      in case fold_blocks (constants, varCounter b) (blocks (ir b)) of
           (bs', cs', n') \<Rightarrow> b\<lparr>ir := (ir b)\<lparr>blocks := bs'\<rparr>, varCounter := n'\<rparr>)"

definition op_name :: "SSAOpType \<Rightarrow> string" where
  "op_name x =
     (case x of Alloc \<Rightarrow> ''alloc'' | Assign \<Rightarrow> ''assign'' | Load \<Rightarrow> ''load''
      | Store \<Rightarrow> ''store'' | Call \<Rightarrow> ''call'' | Branch \<Rightarrow> ''branch'' | Phi \<Rightarrow> ''phi''
      | Return \<Rightarrow> ''return'' | CreateElement \<Rightarrow> ''create_element''
      | CreateText \<Rightarrow> ''create_text'' | SetProp \<Rightarrow> ''set_prop''
      | AppendChild \<Rightarrow> ''append_child'' | Mount \<Rightarrow> ''mount'' | Patch \<Rightarrow> ''patch'')"

text \<open>\<open>commonSubexpressionElimination\<close>: the state is the \<open>expressions\<close> map and the
  alias table \<open>ir.variables\<close>; no instruction is changed.\<close>

fun cse_instructions ::
  "(string \<times> string) list \<times> (string \<times> string) list \<Rightarrow> SSAInstruction list
     \<Rightarrow> (string \<times> string) list \<times> (string \<times> string) list" where
  "cse_instructions st [] = st"
| "cse_instructions (exprs, vars) (inst # insts) =
     cse_instructions
       (if op inst = CreateElement \<or> op inst = CreateText
        then (let key = op_name (op inst) @ '':'' @ tpl (json_stringify_args (args inst))
                        @ '':'' @ js_to_string (ivalue inst)
              in case dest inst of
                   None \<Rightarrow> (exprs, vars)
                 | Some d \<Rightarrow>
                     if d = [] then (exprs, vars)
                     else (case map_of exprs key of
                             Some first \<Rightarrow> (exprs, map_set vars d first)
                           | None \<Rightarrow> (map_set exprs key d, vars)))
        else (exprs, vars))
       insts"

definition commonSubexpressionElimination :: "SSABuilder \<Rightarrow> SSABuilder" where
  "commonSubexpressionElimination b =
     (case cse_instructions ([], variables (ir b)) (all_instructions (ir b)) of
        (exprs, vars) \<Rightarrow> b\<lparr>ir := (ir b)\<lparr>variables := vars\<rparr>\<rparr>)"

definition optimize :: "SSABuilder \<Rightarrow> SSABuilder" where
  "optimize b = commonSubexpressionElimination (constantFolding (deadCodeElimination b))"

text \<open>\<open>build\<close> drops the name that \<open>visitNode\<close> returns for the root.\<close>

definition build :: "SSABuilder \<Rightarrow> ASTNode \<Rightarrow> error + SSAIR" where
  "build b ast =
     (case visitNode b ast of
        Inl err \<Rightarrow> Inl err
      | Inr (root, b1) \<Rightarrow> Inr (ir (optimize b1)))"

definition buildSSA :: "ASTNode \<Rightarrow> error + SSAIR" where
  "buildSSA ast = build new_SSABuilder ast"

section \<open>The parser (src/compiler/parser.ts)\<close>

text \<open>\<open>/^[A-Z]/.test(tag)\<close>\<close>

definition starts_upper :: "string \<Rightarrow> bool" where
  "starts_upper s = (case s of [] \<Rightarrow> False | c # cs \<Rightarrow> 65 \<le> (of_char c :: nat) \<and> (of_char c :: nat) \<le> 90)"

text \<open>The string that a token's \<open>value\<close> field holds.\<close>

definition token_text :: "TokenValue \<Rightarrow> string" where
  "token_text v =
     (case v of
        StrValue s \<Rightarrow> s
      | TagValue tg at \<Rightarrow>
          tpl (json_stringify (JObject [(''tag'', JString tg), (''attributes'', JObject at)])))"

text \<open>
  The parser's state is the token array and the index \<open>pos\<close>, which only ever moves
  forward by one; the model passes the tokens from \<open>pos\<close> on. \<open>parseElement\<close> gets
  the token that its \<open>this.advance()\<close> returns and the tokens after it.
  \<open>JSON.parse\<close> of a payload that is not the JSON text of a tag is an error; the
  tokenizer never builds such an open token.
\<close>

function parseChildren :: "Token list \<Rightarrow> error + (ASTNode list \<times> Token list)"
  and parseNode :: "Token list \<Rightarrow> error + (ASTNode option \<times> Token list)"
  and parseElement :: "Token \<Rightarrow> Token list \<Rightarrow> error + (ASTNode \<times> Token list)"
where
  "parseChildren ts =
     (case ts of
        [] \<Rightarrow> Inr ([], ts)
      | tok # rest \<Rightarrow>
          if ttype tok = TClose \<or> ttype tok = TEof then Inr ([], ts)
          else (case parseNode ts of
                  Inl e \<Rightarrow> Inl e
                | Inr (node, ts1) \<Rightarrow>
                    (case parseChildren ts1 of
                       Inl e \<Rightarrow> Inl e
                     | Inr (nodes, ts2) \<Rightarrow>
                         Inr ((case node of None \<Rightarrow> [] | Some n \<Rightarrow> [n]) @ nodes, ts2))))"
| "parseNode ts =
     (case ts of
        [] \<Rightarrow> Inr (None, ts)
      | tok # rest \<Rightarrow>
          (case ttype tok of
             TText \<Rightarrow>
               Inr (Some (ASTNode Text None None None (Some (token_text (tvalue tok))) None
                            (Some True) (Some (tloc tok))), rest)
           | TExpr \<Rightarrow>
               Inr (Some (ASTNode Expression None None None None (Some (token_text (tvalue tok)))
                            (Some False) (Some (tloc tok))), rest)
           | TOpen \<Rightarrow>
               (case parseElement tok rest of
                  Inl e \<Rightarrow> Inl e | Inr (n, ts1) \<Rightarrow> Inr (Some n, ts1))
           | TSelfClose \<Rightarrow>
               (case parseElement tok rest of
                  Inl e \<Rightarrow> Inl e | Inr (n, ts1) \<Rightarrow> Inr (Some n, ts1))
           | TEof \<Rightarrow> Inr (None, ts)
           | TClose \<Rightarrow> Inr (None, rest)))"
| "parseElement tok rest =
     (case tvalue tok of
        StrValue s \<Rightarrow> Inl JsonSyntaxError
      | TagValue tg at \<Rightarrow>
          if ttype tok = TSelfClose
          then Inr (ASTNode (if starts_upper tg then Component else Element) (Some tg) (Some at)
                      (Some []) None None None (Some (tloc tok)), rest)
          else (case parseChildren rest of
                  Inl e \<Rightarrow> Inl e
                | Inr (cs, ts1) \<Rightarrow>
                    Inr (ASTNode (if starts_upper tg then Component else Element) (Some tg)
                           (Some at) (Some cs) None None None (Some (tloc tok)),
                         (case ts1 of
                            [] \<Rightarrow> []
                          | c # r \<Rightarrow> if ttype c = TClose then r else ts1))))"
  by pat_completeness auto


text \<open>The calls are nested (\<open>parseChildren\<close> continues on what \<open>parseNode\<close>
  leaves), so termination needs a bound first: no parser function returns more tokens
  than it got, and \<open>parseNode\<close> consumes one unless it stands at \<open>eof\<close>.\<close>

lemma parse_length:
  "parseChildren_parseNode_parseElement_dom (Inl ts) \<Longrightarrow>
     (\<forall>r ts'. parseChildren ts = Inr (r, ts') \<longrightarrow> length ts' \<le> length ts)"
  "parseChildren_parseNode_parseElement_dom (Inr (Inl ts)) \<Longrightarrow>
     (\<forall>r ts'. parseNode ts = Inr (r, ts') \<longrightarrow>
        length ts' \<le> length ts \<and> (ts \<noteq> [] \<and> ttype (hd ts) \<noteq> TEof \<longrightarrow> length ts' < length ts))"
  "parseChildren_parseNode_parseElement_dom (Inr (Inr (tok, rest))) \<Longrightarrow>
     (\<forall>n ts'. parseElement tok rest = Inr (n, ts') \<longrightarrow> length ts' \<le> length rest)"
proof (induct rule: parseChildren_parseNode_parseElement.pinduct)
  case (1 ts)
  show ?case
  proof (intro allI impI)
    fix r ts' assume eq: "parseChildren ts = Inr (r, ts')"
    show "length ts' \<le> length ts"
    proof (cases ts)
      case Nil
      with eq 1(1) show ?thesis by (simp add: parseChildren.psimps)
    next
      case (Cons tok rest)
      show ?thesis
      proof (cases "ttype tok = TClose \<or> ttype tok = TEof")
        case True
        with eq 1(1) Cons show ?thesis by (simp add: parseChildren.psimps)
      next
        case False
        from eq 1(1) Cons False obtain node ts1 nodes where
          pn: "parseNode ts = Inr (node, ts1)" and pc: "parseChildren ts1 = Inr (nodes, ts')"
          by (auto simp: parseChildren.psimps split: sum.splits prod.splits)
        from 1(2)[OF Cons False] pn have "length ts1 \<le> length ts" by blast
        moreover from 1(3)[OF Cons False pn refl] pc have "length ts' \<le> length ts1" by blast
        ultimately show ?thesis by simp
      qed
    qed
  qed
next
  case (2 ts)
  show ?case
  proof (intro allI impI)
    fix r ts' assume eq: "parseNode ts = Inr (r, ts')"
    show "length ts' \<le> length ts \<and> (ts \<noteq> [] \<and> ttype (hd ts) \<noteq> TEof \<longrightarrow> length ts' < length ts)"
    proof (cases ts)
      case Nil
      with eq 2(1) show ?thesis by (simp add: parseNode.psimps)
    next
      case (Cons tok rest)
      show ?thesis
      proof (cases "ttype tok")
        case TOpen
        with eq 2(1) Cons obtain n where "parseElement tok rest = Inr (n, ts')"
          by (auto simp: parseNode.psimps split: sum.splits prod.splits)
        with 2(2)[OF Cons TOpen] have "length ts' \<le> length rest" by blast
        with Cons show ?thesis by simp
      next
        case TSelfClose
        with eq 2(1) Cons obtain n where "parseElement tok rest = Inr (n, ts')"
          by (auto simp: parseNode.psimps split: sum.splits prod.splits)
        with 2(3)[OF Cons TSelfClose] have "length ts' \<le> length rest" by blast
        with Cons show ?thesis by simp
      qed (use eq 2(1) Cons in \<open>auto simp: parseNode.psimps\<close>)
    qed
  qed
next
  case (3 tok rest)
  show ?case
  proof (intro allI impI)
    fix n ts' assume eq: "parseElement tok rest = Inr (n, ts')"
    show "length ts' \<le> length rest"
    proof (cases "tvalue tok")
      case (StrValue s)
      with eq 3(1) show ?thesis by (simp add: parseElement.psimps)
    next
      case (TagValue tg at)
      show ?thesis
      proof (cases "ttype tok = TSelfClose")
        case True
        with eq 3(1) TagValue show ?thesis by (simp add: parseElement.psimps)
      next
        case False
        from eq 3(1) TagValue False obtain cs ts1 where
          pc: "parseChildren rest = Inr (cs, ts1)"
          and ts': "ts' = (case ts1 of [] \<Rightarrow> [] | c # r \<Rightarrow> if ttype c = TClose then r else ts1)"
          by (auto simp: parseElement.psimps split: sum.splits prod.splits)
        from 3(2)[OF TagValue False] pc have "length ts1 \<le> length rest" by blast
        moreover from ts' have "length ts' \<le> length ts1" by (auto split: list.splits)
        ultimately show ?thesis by simp
      qed
    qed
  qed
qed

termination parseChildren
  apply (relation "measure (\<lambda>x. case x of Inl ts \<Rightarrow> 3 * length ts + 2
                                | Inr (Inl ts) \<Rightarrow> 3 * length ts + 1
                                | Inr (Inr (tok, rest)) \<Rightarrow> 3 * length rest + 3)")
      apply simp_all
  apply (auto dest!: parse_length(2))
  done

definition parse :: "string \<Rightarrow> (error + ASTNode) option" where
  "parse src =
     (case tokenize (new_Tokenizer src) of
        None \<Rightarrow> None
      | Some tokens \<Rightarrow>
          Some (case parseChildren tokens of
                  Inl e \<Rightarrow> Inl e
                | Inr (cs, rest) \<Rightarrow>
                    Inr (ASTNode Program None None (Some cs) None None None None)))"

section \<open>The entry points (src/compiler/codegen.ts)\<close>

text \<open>A result \<open>None\<close> means that the call does not return; \<open>Some (Inl e)\<close> that
  it throws.\<close>

definition compile :: "string \<Rightarrow> (error + string) option" where
  "compile src =
     (case parse src of
        None \<Rightarrow> None
      | Some (Inl e) \<Rightarrow> Some (Inl e)
      | Some (Inr ast) \<Rightarrow>
          Some (case buildSSA ast of
                  Inl e \<Rightarrow> Inl e
                | Inr i \<Rightarrow> generateOptimizedCode i))"


section \<open>Auxiliary notions used in the statements\<close>

text \<open>The shape of \<open>varMap\<close> that every lookup keeps: the short names, in insertion
  order, are \<open>generateShortName 0, 1, 2, ...\<close>, and no original name occurs twice.\<close>

definition vm_ok :: "(string option \<times> string) list \<Rightarrow> bool" where
  "vm_ok vm = (map snd vm = map generateShortName [0..<length vm] \<and> distinct (map fst vm))"

text \<open>The same generator instance with another \<open>target\<close> option.\<close>

definition retarget :: "Target \<Rightarrow> CodeGenerator \<Rightarrow> CodeGenerator" where
  "retarget t g = g\<lparr>options := (options g)\<lparr>target := t\<rparr>\<rparr>"

text \<open>
  The invariant of C2 in the claim's words: every argument of an instruction is the
  destination of an earlier instruction of the same block, or it stands where the
  instruction holds a literal tag or key (the tag of \<open>create_element\<close>, the key of
  \<open>set_prop\<close>, the component name of \<open>call\<close>). \<open>seen\<close> lists the destinations
  defined so far.
\<close>

definition literal_position :: "SSAOpType \<Rightarrow> nat \<Rightarrow> bool" where
  "literal_position x k = ((x = CreateElement \<and> k = 0) \<or> (x = SetProp \<and> k = 1) \<or> (x = Call \<and> k = 0))"

fun args_defined :: "string option list \<Rightarrow> SSAInstruction list \<Rightarrow> bool" where
  "args_defined seen [] = True"
| "args_defined seen (inst # insts) =
     (list_all (\<lambda>ka. literal_position (op inst) (fst ka) \<or> snd ka \<in> set seen)
               (enumerate 0 (case args inst of None \<Rightarrow> [] | Some xs \<Rightarrow> xs))
      \<and> args_defined (seen @ (case dest inst of None \<Rightarrow> [] | Some d \<Rightarrow> [Some d])) insts)"

text \<open>
  The instructions C4 speaks of: an \<open>alloc\<close>, \<open>load\<close>, \<open>create_element\<close> or
  \<open>create_text\<close> whose destination no instruction of the list has as an argument.
\<close>

definition pure_op :: "SSAOpType \<Rightarrow> bool" where
  "pure_op x = (x = Alloc \<or> x = Load \<or> x = CreateElement \<or> x = CreateText)"

definition dead_in :: "SSAInstruction list \<Rightarrow> SSAInstruction \<Rightarrow> bool" where
  "dead_in insts inst =
     (pure_op (op inst) \<and>
      (case dest inst of None \<Rightarrow> False | Some d \<Rightarrow> Some d \<notin> set (used_names insts)))"

text \<open>No instruction of the builder's IR is a \<open>return\<close>.\<close>

definition no_return :: "SSABuilder \<Rightarrow> bool" where
  "no_return b = (\<forall>inst \<in> set (all_instructions (ir b)). op inst \<noteq> Return)"

text \<open>
  The original names that \<open>emitInstruction\<close> hands to \<open>getVarName\<close> for one
  instruction, in the order of the calls, read off the emit functions: the destination
  for \<open>alloc\<close>, \<open>load\<close>, \<open>create_element\<close> and \<open>create_text\<close>; the
  destructured arguments for \<open>store\<close>, \<open>append_child\<close>, \<open>mount\<close> and
  \<open>patch\<close>; the first and the third argument for \<open>set_prop\<close> (the key in between
  is printed as it is); for \<open>call\<close> the destination unless it is absent or empty,
  then the arguments after the first, then the first argument unless the metadata name
  a component; the first argument of a \<open>return\<close> that has one. An argument past the
  end of the array is \<open>undefined\<close> and is looked up as such.
  \<open>emitInstruction_lookups\<close> below relates this list to the emit functions.
\<close>

definition lookups :: "SSAInstruction \<Rightarrow> string option list" where
  "lookups inst =
     (let xs = (case args inst of None \<Rightarrow> [] | Some ys \<Rightarrow> ys) in
      case op inst of
        Alloc \<Rightarrow> [dest inst]
      | Load \<Rightarrow> [dest inst]
      | CreateElement \<Rightarrow> [dest inst]
      | CreateText \<Rightarrow> [dest inst]
      | Store \<Rightarrow> [arg_at xs 0, arg_at xs 1]
      | SetProp \<Rightarrow> [arg_at xs 0, arg_at xs 2]
      | AppendChild \<Rightarrow> [arg_at xs 0, arg_at xs 1]
      | Mount \<Rightarrow> [arg_at xs 0, arg_at xs 1]
      | Patch \<Rightarrow> [arg_at xs 0, arg_at xs 1, arg_at xs 2]
      | Call \<Rightarrow>
          (case dest inst of None \<Rightarrow> [] | Some d \<Rightarrow> if d = [] then [] else [Some d])
          @ tl xs
          @ (if truthy (md inst ''component'') then [] else [arg_at xs 0])
      | Return \<Rightarrow> (if xs = [] then [] else [arg_at xs 0])
      | _ \<Rightarrow> [])"

text \<open>The distinct elements of a list in the order of their first occurrence, and
  the position of the first occurrence of an element.\<close>

definition add_new :: "'a list \<Rightarrow> 'a \<Rightarrow> 'a list" where
  "add_new acc x = (if x \<in> set acc then acc else acc @ [x])"

definition first_uses :: "'a list \<Rightarrow> 'a list" where
  "first_uses xs = foldl add_new [] xs"

fun index_of :: "'a list \<Rightarrow> 'a \<Rightarrow> nat" where
  "index_of [] x = 0"
| "index_of (y # ys) x = (if y = x then 0 else Suc (index_of ys x))"

subsection \<open>Sample inputs\<close>

definition opts_default :: PartialCodeGenOptions where
  "opts_default = \<lparr> p_target = None, p_minify = None, p_inlineCache = None,
                      p_staticOptimization = None \<rparr>"

definition opts_min :: PartialCodeGenOptions where
  "opts_min = \<lparr> p_target = None, p_minify = Some True, p_inlineCache = Some True,
                  p_staticOptimization = Some True \<rparr>"

text \<open>An IR whose block map is empty, and one whose entry block has no instruction.\<close>

definition ir_no_entry :: SSAIR where
  "ir_no_entry = \<lparr> blocks = [], entry = 0, variables = [], nextVarId = 0, nextBlockId = 0 \<rparr>"

definition ir_empty_entry :: SSAIR where
  "ir_empty_entry =
     \<lparr> blocks = [(0, \<lparr> bid = 0, instructions = [], predecessors = [], successors = [],
                         dominates = [] \<rparr>)],
       entry = 0, variables = [], nextVarId = 0, nextBlockId = 0 \<rparr>"

text \<open>The IR of \<open><div>hi</div>\<close>.\<close>

definition ir_hi :: SSAIR where
  "ir_hi = \<lparr> blocks = [(0, \<lparr> bid = 0, instructions =
       [\<lparr> op = CreateElement, dest = Some ''el0'', args = Some [Some ''div''], ivalue = JUndefined,
           metadata = Some [(''tag'', JString ''div''), (''isStatic'', JUndefined)],
           blockId = None \<rparr>,
        \<lparr> op = CreateText, dest = Some ''txt1'', args = None, ivalue = JString ''hi'',
           metadata = Some [(''isStatic'', JBool True)], blockId = None \<rparr>,
        \<lparr> op = AppendChild, dest = None, args = Some [Some ''el0'', Some ''txt1''], ivalue = JUndefined,
           metadata = None, blockId = None \<rparr>],
       predecessors = [], successors = [], dominates = [] \<rparr>)],
      entry = 0, variables = [], nextVarId = 0, nextBlockId = 0 \<rparr>"

text \<open>One component call that mentions 27 distinct names: its destination and 26
  arguments.\<close>

definition ir_call27 :: SSAIR where
  "ir_call27 = \<lparr> blocks = [(0, \<lparr> bid = 0, instructions =
       [\<lparr> op = Call, dest = Some ''comp0'',
           args = Some [Some ''Big'', Some ''p1'', Some ''p2'', Some ''p3'',
                        Some ''p4'', Some ''p5'', Some ''p6'', Some ''p7'',
                        Some ''p8'', Some ''p9'', Some ''p10'', Some ''p11'',
                        Some ''p12'', Some ''p13'', Some ''p14'', Some ''p15'',
                        Some ''p16'', Some ''p17'', Some ''p18'', Some ''p19'',
                        Some ''p20'', Some ''p21'', Some ''p22'', Some ''p23'',
                        Some ''p24'', Some ''p25'', Some ''p26''],
           ivalue = JUndefined,
           metadata = Some [(''component'', JString ''Big'')], blockId = None \<rparr>],
       predecessors = [], successors = [], dominates = [] \<rparr>)],
      entry = 0, variables = [], nextVarId = 0, nextBlockId = 0 \<rparr>"

text \<open>The tree of \<open><div id="x"/>\<close>, the builder after visiting it (before the
  optimizer runs) and the IR that \<open>buildSSA\<close> returns for it.\<close>

definition ast_div_id :: ASTNode where
  "ast_div_id = ASTNode Program None None
     (Some [ASTNode Element (Some ''div'') (Some [(''id'', JString ''x'')]) (Some []) None None None
              (Some \<lparr>loc_start = (1, 1), loc_end = (1, 1)\<rparr>)])
     None None None None"


definition builder_div_id :: SSABuilder where
  "builder_div_id =
     \<lparr>ir = \<lparr>blocks = [(0, \<lparr>bid = 0, instructions =
        [\<lparr>op = CreateElement, dest = Some ''el0'', args = Some [Some ''div''], ivalue = JUndefined,
           metadata = Some [(''tag'', JString ''div''), (''isStatic'', JUndefined)], blockId = None\<rparr>,
         \<lparr>op = Alloc, dest = Some ''const1'', args = None, ivalue = JString ''x'',
           metadata = Some [(''isStatic'', JBool True)], blockId = None\<rparr>,
         \<lparr>op = SetProp, dest = None, args = Some [Some ''el0'', Some ''id'', Some ''const1''],
           ivalue = JUndefined,
           metadata = Some [(''key'', JString ''id''), (''isStatic'', JBool True)], blockId = None\<rparr>],
        predecessors = [], successors = [], dominates = []\<rparr>)],
      entry = 0, variables = [], nextVarId = 0, nextBlockId = 0\<rparr>,
      currentBlock = 0, varCounter = 2, blockCounter = 1\<rparr>"

definition ir_div_id :: SSAIR where
  "ir_div_id = \<lparr>blocks = [(0, \<lparr>bid = 0, instructions =
      [\<lparr>op = CreateElement, dest = Some ''el0'', args = Some [Some ''div''], ivalue = JUndefined,
         metadata = Some [(''tag'', JString ''div''), (''isStatic'', JUndefined)], blockId = None\<rparr>,
       \<lparr>op = Alloc, dest = Some ''const1'', args = None, ivalue = JString ''x'',
         metadata = Some [(''isStatic'', JBool True)], blockId = None\<rparr>,
       \<lparr>op = SetProp, dest = None, args = Some [Some ''el0'', Some ''id'', Some ''fold2''],
         ivalue = JUndefined,
         metadata = Some [(''key'', JString ''id''), (''isStatic'', JBool True)], blockId = None\<rparr>],
      predecessors = [], successors = [], dominates = []\<rparr>)],
    entry = 0, variables = [], nextVarId = 0, nextBlockId = 0\<rparr>"

text \<open>A tree whose element tag spells the name the builder gives to the text node
  after it: \<open><txt1/>hello\<close>.\<close>

definition ast_tagclash :: ASTNode where
  "ast_tagclash = ASTNode Program None None
     (Some [ASTNode Element (Some ''txt1'') (Some []) (Some []) None None None None,
            ASTNode Text None None None (Some ''hello'') None (Some True) None])
     None None None None"

section \<open>Short names\<close>


lemma gsn_loop_step:
  "generateShortName_loop n name =
     (if n div 26 > 0 then generateShortName_loop (n div 26) ((chars ! (n mod 26)) # name)
      else (chars ! (n mod 26)) # name)"
  by (subst generateShortName_loop.simps) (simp add: Let_def chars_def)

lemma gsn_loop_acc: "generateShortName_loop n name = generateShortName_loop n [] @ name"
proof (induction n arbitrary: name rule: less_induct)
  case (less n)
  show ?case
  proof (cases "n div 26 > 0")
    case True
    then have lt: "n div 26 < n" by simp
    have "generateShortName_loop n name = generateShortName_loop (n div 26) [] @ (chars ! (n mod 26)) # name"
      using True less.IH[OF lt, of "(chars ! (n mod 26)) # name"] by (subst gsn_loop_step) simp
    moreover have "generateShortName_loop n [] = generateShortName_loop (n div 26) [] @ [chars ! (n mod 26)]"
      using True less.IH[OF lt, of "[chars ! (n mod 26)]"] by (subst gsn_loop_step) simp
    ultimately show ?thesis by simp
  next
    case False
    then show ?thesis by (subst gsn_loop_step, subst (2) gsn_loop_step) simp
  qed
qed

lemma gsn_small: "i < 26 \<Longrightarrow> generateShortName i = [chars ! i]"
  unfolding generateShortName_def by (subst gsn_loop_step) simp

lemma gsn_rec: "26 \<le> n \<Longrightarrow> generateShortName n = generateShortName (n div 26) @ [chars ! (n mod 26)]"
proof -
  assume a: "26 \<le> n"
  then have p: "n div 26 > 0" by (simp add: div_greater_zero_iff)
  show ?thesis unfolding generateShortName_def
    using p gsn_loop_acc[of "n div 26" "[chars ! (n mod 26)]"] by (subst gsn_loop_step) simp
qed

lemma gsn_nonempty: "generateShortName n \<noteq> []"
  by (cases "n < 26") (simp_all add: gsn_small gsn_rec)

lemma distinct_chars: "distinct chars" by (simp add: chars_def)
lemma length_chars: "length chars = 26" by (simp add: chars_def)

lemma gsn_inj: "generateShortName m = generateShortName n \<Longrightarrow> m = n"
proof (induction n arbitrary: m rule: less_induct)
  case (less n)
  show ?case
  proof (cases "n < 26")
    case n: True
    show ?thesis
    proof (cases "m < 26")
      case True
      with n less.prems have "chars ! m = chars ! n" by (simp add: gsn_small)
      with True n show ?thesis using distinct_chars length_chars by (simp add: nth_eq_iff_index_eq)
    next
      case False
      with n less.prems gsn_nonempty[of "m div 26"] show ?thesis by (simp add: gsn_small gsn_rec)
    qed
  next
    case n: False
    show ?thesis
    proof (cases "m < 26")
      case True
      with n less.prems gsn_nonempty[of "n div 26"] show ?thesis by (simp add: gsn_small gsn_rec)
    next
      case False
      with n less.prems have e: "generateShortName (m div 26) = generateShortName (n div 26)"
        and c: "chars ! (m mod 26) = chars ! (n mod 26)" by (simp_all add: gsn_rec)
      from n have "n div 26 < n" by simp
      from less.IH[OF this e] have d: "m div 26 = n div 26" .
      from c have "m mod 26 = n mod 26" using distinct_chars length_chars by (simp add: nth_eq_iff_index_eq)
      with d show ?thesis by (metis div_mult_mod_eq)
    qed
  qed
qed


section \<open>The rename map during generation\<close>

lemma map_set_absent: "map_of kvs k = None \<Longrightarrow> map_set kvs k v = kvs @ [(k, v)]"
  by (induction kvs) (auto split: if_splits)

lemma map_of_None_notin: "map_of kvs k = None \<Longrightarrow> k \<notin> fst ` set kvs"
  by (simp add: map_of_eq_None_iff)

lemma emit_varMap [simp]: "varMap (emit g c) = varMap g"
  by (simp add: emit_def)
lemma indentInc_varMap [simp]: "varMap (indentInc g) = varMap g"
  by (simp add: indentInc_def)
lemma indentDec_varMap [simp]: "varMap (indentDec g) = varMap g"
  by (simp add: indentDec_def)

lemma getVarName_vm_ok:
  "getVarName g x = (r, g') \<Longrightarrow> vm_ok (varMap g) \<Longrightarrow> vm_ok (varMap g')"
  by (auto simp: getVarName_def vm_ok_def Let_def map_set_absent map_of_eq_None_iff
           split: option.splits if_splits)

lemma getVarNames_vm_ok:
  "getVarNames g xs = (rs, g') \<Longrightarrow> vm_ok (varMap g) \<Longrightarrow> vm_ok (varMap g')"
proof (induction xs arbitrary: g rs g')
  case Nil
  then show ?case by simp
next
  case (Cons a as)
  then show ?case
    by (auto split: prod.splits dest: getVarName_vm_ok)
qed

lemma emitAlloc_vm_ok: "emitAlloc g i = Inr g' \<Longrightarrow> vm_ok (varMap g) \<Longrightarrow> vm_ok (varMap g')"
  by (auto simp: emitAlloc_def Let_def split: prod.splits option.splits if_splits dest: getVarName_vm_ok)
lemma emitLoad_vm_ok: "emitLoad g i = Inr g' \<Longrightarrow> vm_ok (varMap g) \<Longrightarrow> vm_ok (varMap g')"
  by (auto simp: emitLoad_def Let_def split: prod.splits option.splits if_splits dest: getVarName_vm_ok)
lemma emitStore_vm_ok: "emitStore g i = Inr g' \<Longrightarrow> vm_ok (varMap g) \<Longrightarrow> vm_ok (varMap g')"
  by (auto simp: emitStore_def Let_def split: prod.splits option.splits if_splits dest: getVarName_vm_ok)
lemma emitCall_vm_ok: "emitCall g i = Inr g' \<Longrightarrow> vm_ok (varMap g) \<Longrightarrow> vm_ok (varMap g')"
  apply (auto simp: emitCall_def Let_def split: prod.splits option.splits if_splits dest: getVarName_vm_ok getVarNames_vm_ok)
  apply (blast dest: getVarName_vm_ok getVarNames_vm_ok)+
  done
lemma emitCreateElement_vm_ok: "emitCreateElement g i = Inr g' \<Longrightarrow> vm_ok (varMap g) \<Longrightarrow> vm_ok (varMap g')"
  by (auto simp: emitCreateElement_def Let_def split: prod.splits option.splits if_splits dest: getVarName_vm_ok)
lemma emitCreateText_vm_ok: "emitCreateText g i = Inr g' \<Longrightarrow> vm_ok (varMap g) \<Longrightarrow> vm_ok (varMap g')"
  by (auto simp: emitCreateText_def Let_def split: prod.splits option.splits if_splits dest: getVarName_vm_ok)
lemma emitSetProp_vm_ok: "emitSetProp g i = Inr g' \<Longrightarrow> vm_ok (varMap g) \<Longrightarrow> vm_ok (varMap g')"
  by (auto simp: emitSetProp_def Let_def split: prod.splits option.splits if_splits dest: getVarName_vm_ok)
lemma emitAppendChild_vm_ok: "emitAppendChild g i = Inr g' \<Longrightarrow> vm_ok (varMap g) \<Longrightarrow> vm_ok (varMap g')"
  by (auto simp: emitAppendChild_def Let_def split: prod.splits option.splits if_splits dest: getVarName_vm_ok)
lemma emitMount_vm_ok: "emitMount g i = Inr g' \<Longrightarrow> vm_ok (varMap g) \<Longrightarrow> vm_ok (varMap g')"
  by (auto simp: emitMount_def Let_def split: prod.splits option.splits if_splits dest: getVarName_vm_ok)
lemma emitPatch_vm_ok: "emitPatch g i = Inr g' \<Longrightarrow> vm_ok (varMap g) \<Longrightarrow> vm_ok (varMap g')"
  apply (auto simp: emitPatch_def Let_def split: prod.splits option.splits if_splits dest: getVarName_vm_ok)
  apply (blast dest: getVarName_vm_ok)
  done
lemma emitReturn_vm_ok: "emitReturn g i = Inr g' \<Longrightarrow> vm_ok (varMap g) \<Longrightarrow> vm_ok (varMap g')"
  by (auto simp: emitReturn_def Let_def split: prod.splits option.splits if_splits dest: getVarName_vm_ok)

lemmas emit_ops_vm_ok = emitAlloc_vm_ok emitLoad_vm_ok emitStore_vm_ok emitCall_vm_ok
  emitCreateElement_vm_ok emitCreateText_vm_ok emitSetProp_vm_ok emitAppendChild_vm_ok
  emitMount_vm_ok emitPatch_vm_ok emitReturn_vm_ok

lemma emitInstruction_vm_ok:
  "emitInstruction g i = Inr g' \<Longrightarrow> vm_ok (varMap g) \<Longrightarrow> vm_ok (varMap g')"
  unfolding emitInstruction_def
  by (cases "op i") (auto dest: emit_ops_vm_ok)

lemma emitInstructions_vm_ok:
  "emitInstructions g is = Inr g' \<Longrightarrow> vm_ok (varMap g) \<Longrightarrow> vm_ok (varMap g')"
  by (induction "is" arbitrary: g) (auto split: sum.splits dest: emitInstruction_vm_ok)

lemma emitBlocks_vm_ok:
  "emitBlocks g irep = Inr g' \<Longrightarrow> vm_ok (varMap g) \<Longrightarrow> vm_ok (varMap g')"
  by (auto simp: emitBlocks_def Let_def split: option.splits sum.splits dest!: emitInstructions_vm_ok)

lemma emitHeader_varMap [simp]: "varMap (emitHeader g) = varMap g"
  by (simp add: emitHeader_def Let_def)
lemma emitFooter_varMap [simp]: "varMap (emitFooter g) = varMap g"
  by (simp add: emitFooter_def)

lemma generate_vm_ok:
  "generate g irep = Inr (code, g') \<Longrightarrow> vm_ok (varMap g) \<Longrightarrow> vm_ok (varMap g')"
  by (auto simp: generate_def Let_def split: sum.splits dest!: emitBlocks_vm_ok)

lemma new_vm_ok: "vm_ok (varMap (new_CodeGenerator opts))"
  by (simp add: new_CodeGenerator_def vm_ok_def)

lemma vm_ok_distinct_snd: "vm_ok vm \<Longrightarrow> distinct (map snd vm)"
  unfolding vm_ok_def
  by (simp add: distinct_map inj_on_def gsn_inj)


section \<open>The target option is never read\<close>

lemma retarget_fields [simp]:
  "minify (options (retarget t g)) = minify (options g)"
  "inlineCache (options (retarget t g)) = inlineCache (options g)"
  "staticOptimization (options (retarget t g)) = staticOptimization (options g)"
  "varMap (retarget t g) = varMap g"
  "staticCache (retarget t g) = staticCache g"
  "output_buf (retarget t g) = output_buf g"
  "indent (retarget t g) = indent g"
  by (simp_all add: retarget_def)

lemma retarget_upd [simp]:
  "(retarget t g)\<lparr>varMap := vm\<rparr> = retarget t (g\<lparr>varMap := vm\<rparr>)"
  "(retarget t g)\<lparr>staticCache := sc\<rparr> = retarget t (g\<lparr>staticCache := sc\<rparr>)"
  "(retarget t g)\<lparr>output_buf := ob\<rparr> = retarget t (g\<lparr>output_buf := ob\<rparr>)"
  "(retarget t g)\<lparr>indent := n\<rparr> = retarget t (g\<lparr>indent := n\<rparr>)"
  by (simp_all add: retarget_def)

lemma emit_retarget [simp]: "emit (retarget t g) c = retarget t (emit g c)"
  by (simp add: emit_def)
lemma indentInc_retarget [simp]: "indentInc (retarget t g) = retarget t (indentInc g)"
  by (simp add: indentInc_def)
lemma indentDec_retarget [simp]: "indentDec (retarget t g) = retarget t (indentDec g)"
  by (simp add: indentDec_def)

lemma getVarName_retarget [simp]:
  "getVarName (retarget t g) x = (case getVarName g x of (n, g1) \<Rightarrow> (n, retarget t g1))"
  by (simp add: getVarName_def Let_def split: option.splits)

lemma getVarNames_retarget [simp]:
  "getVarNames (retarget t g) xs = (case getVarNames g xs of (ns, g1) \<Rightarrow> (ns, retarget t g1))"
  by (induction xs arbitrary: g) (simp_all split: prod.splits)

lemma emitAlloc_retarget: "emitAlloc (retarget t g) i = map_sum id (retarget t) (emitAlloc g i)"
  by (auto simp: emitAlloc_def Let_def split: prod.splits option.splits)
lemma emitLoad_retarget: "emitLoad (retarget t g) i = map_sum id (retarget t) (emitLoad g i)"
  by (auto simp: emitLoad_def Let_def split: prod.splits option.splits)
lemma emitStore_retarget: "emitStore (retarget t g) i = map_sum id (retarget t) (emitStore g i)"
  by (auto simp: emitStore_def Let_def split: prod.splits option.splits)
lemma emitCall_retarget: "emitCall (retarget t g) i = map_sum id (retarget t) (emitCall g i)"
  by (auto simp: emitCall_def Let_def split: prod.splits option.splits)
lemma emitCreateElement_retarget: "emitCreateElement (retarget t g) i = map_sum id (retarget t) (emitCreateElement g i)"
  by (auto simp: emitCreateElement_def Let_def split: prod.splits option.splits)
lemma emitCreateText_retarget: "emitCreateText (retarget t g) i = map_sum id (retarget t) (emitCreateText g i)"
  by (auto simp: emitCreateText_def Let_def split: prod.splits option.splits)
lemma emitSetProp_retarget: "emitSetProp (retarget t g) i = map_sum id (retarget t) (emitSetProp g i)"
  by (auto simp: emitSetProp_def Let_def split: prod.splits option.splits)
lemma emitAppendChild_retarget: "emitAppendChild (retarget t g) i = map_sum id (retarget t) (emitAppendChild g i)"
  by (auto simp: emitAppendChild_def Let_def split: prod.splits option.splits)
lemma emitMount_retarget: "emitMount (retarget t g) i = map_sum id (retarget t) (emitMount g i)"
  by (auto simp: emitMount_def Let_def split: prod.splits option.splits)
lemma emitPatch_retarget: "emitPatch (retarget t g) i = map_sum id (retarget t) (emitPatch g i)"
  by (auto simp: emitPatch_def Let_def split: prod.splits option.splits)
lemma emitReturn_retarget: "emitReturn (retarget t g) i = map_sum id (retarget t) (emitReturn g i)"
  by (auto simp: emitReturn_def Let_def split: prod.splits option.splits)

lemma emitInstruction_retarget:
  "emitInstruction (retarget t g) i = map_sum id (retarget t) (emitInstruction g i)"
  unfolding emitInstruction_def
  by (cases "op i")
     (simp_all add: emitAlloc_retarget emitLoad_retarget emitStore_retarget emitCall_retarget
        emitCreateElement_retarget emitCreateText_retarget emitSetProp_retarget
        emitAppendChild_retarget emitMount_retarget emitPatch_retarget emitReturn_retarget)

lemma emitInstructions_retarget:
  "emitInstructions (retarget t g) is = map_sum id (retarget t) (emitInstructions g is)"
  by (induction "is" arbitrary: g) (simp_all add: emitInstruction_retarget split: sum.splits)

lemma emitBlocks_retarget:
  "emitBlocks (retarget t g) irep = map_sum id (retarget t) (emitBlocks g irep)"
  by (simp add: emitBlocks_def Let_def emitInstructions_retarget split: option.splits sum.splits)

lemma emitHeader_retarget: "emitHeader (retarget t g) = retarget t (emitHeader g)"
  by (simp add: emitHeader_def Let_def)
lemma emitFooter_retarget: "emitFooter (retarget t g) = retarget t (emitFooter g)"
  by (simp add: emitFooter_def)

lemma generate_retarget:
  "generate (retarget t g) irep = map_sum id (\<lambda>(code, g'). (code, retarget t g')) (generate g irep)"
proof (cases "emitBlocks (emitHeader (g\<lparr>output_buf := [], indent := 0\<rparr>)) irep")
  case (Inl e)
  then show ?thesis
    by (simp add: generate_def Let_def emitHeader_retarget emitBlocks_retarget)
next
  case (Inr g2)
  then show ?thesis
    by (simp add: generate_def Let_def emitHeader_retarget emitBlocks_retarget emitFooter_retarget)
qed

lemma new_retarget:
  "new_CodeGenerator (opts\<lparr>p_target := Some t\<rparr>) = retarget t (new_CodeGenerator opts)"
  by (simp add: new_CodeGenerator_def retarget_def)

lemma generateCode_retarget:
  "generateCode irep (opts\<lparr>p_target := Some t\<rparr>) = generateCode irep opts"
  by (cases "generate (new_CodeGenerator opts) irep")
     (auto simp: generateCode_def new_retarget generate_retarget)


section \<open>Generation without an entry block\<close>

lemma emit_fields [simp]:
  "options (emit g c) = options g"
  "indent (emit g c) = indent g"
  "staticCache (emit g c) = staticCache g"
  "output_buf (emit g c) =
     output_buf g @ [(if minify (options g) then [] else concat (replicate (indent g) ''  '')) @ c]"
  by (simp_all add: emit_def)

lemma indent_fields [simp]:
  "options (indentInc g) = options g" "output_buf (indentInc g) = output_buf g"
  "indent (indentInc g) = indent g + 1" "staticCache (indentInc g) = staticCache g"
  "options (indentDec g) = options g" "output_buf (indentDec g) = output_buf g"
  "indent (indentDec g) = indent g - 1" "staticCache (indentDec g) = staticCache g"
  by (simp_all add: indentInc_def indentDec_def)

lemma emitHeader_fields:
  \<open>options (emitHeader g) = options g\<close>
  \<open>indent (emitHeader g) = indent g + 1\<close>
  \<open>output_buf (emitHeader g) =
     output_buf g
     @ [(if minify (options g) then [] else concat (replicate (indent g) ''  ''))
          @ ''(function(h, mount, patch) {'',
        (if minify (options g) then [] else concat (replicate (indent g + 1) ''  ''))
          @ ''"use strict";'']
     @ (if staticOptimization (options g)
        then [(if minify (options g) then [] else concat (replicate (indent g + 1) ''  ''))
                @ ''const _cache = new Map();'']
        else [])\<close>
  unfolding emitHeader_def Let_def by (simp_all del: replicate.simps)

lemma emitFooter_fields:
  \<open>options (emitFooter g) = options g\<close>
  \<open>output_buf (emitFooter g) =
     output_buf g
     @ [(if minify (options g) then [] else concat (replicate (indent g - 1) ''  ''))
          @ ''})(h, mount, patch);'']\<close>
  unfolding emitFooter_def by simp_all

lemma generate_no_entry:
  assumes "map_of (blocks irep) (entry irep) = None"
  shows "generate g irep =
     Inr (js_join (if minify (options g) then [] else [newline])
            (output_buf (emitFooter (emitHeader (g\<lparr>output_buf := [], indent := 0\<rparr>)))),
          emitFooter (emitHeader (g\<lparr>output_buf := [], indent := 0\<rparr>)))"
  using assms unfolding generate_def emitBlocks_def Let_def
  by (simp add: emitFooter_fields emitHeader_fields)


section \<open>Evaluating the generator\<close>

lemma gsn_26: "n = 26 \<Longrightarrow> generateShortName n = ''ba''"
  by (simp add: gsn_rec gsn_small chars_def)

lemma gsn_upto_26:
  "map generateShortName [0..<27] = [''a'', ''b'', ''c'', ''d'', ''e'', ''f'', ''g'', ''h'', ''i'', ''j'',
     ''k'', ''l'', ''m'', ''n'', ''o'', ''p'', ''q'', ''r'', ''s'', ''t'', ''u'', ''v'', ''w'', ''x'', ''y'',
     ''z'', ''ba'']"
  by code_simp


section \<open>The names looked up during generation\<close>

lemma getVarName_minify:
  "minify (options g) \<Longrightarrow>
     getVarName g x =
       (case map_of (varMap g) x of
          Some s \<Rightarrow> (Some s, g)
        | None \<Rightarrow> (Some (generateShortName (length (varMap g))),
                   g\<lparr>varMap := varMap g @ [(x, generateShortName (length (varMap g)))]\<rparr>))"
  by (simp add: getVarName_def Let_def map_set_absent split: option.splits)

lemma index_of_append: "x \<in> set ys \<Longrightarrow> index_of (ys @ zs) x = index_of ys x"
  by (induction ys) auto

lemma index_of_new: "x \<notin> set ys \<Longrightarrow> index_of (ys @ [x]) x = length ys"
  by (induction ys) auto

lemma index_of_less: "x \<in> set ys \<Longrightarrow> index_of ys x < length ys"
  by (induction ys) auto

lemma nth_index_of: "x \<in> set ys \<Longrightarrow> ys ! index_of ys x = x"
  by (induction ys) auto

lemma set_add_new: "set (add_new acc x) = insert x (set acc)"
  by (auto simp: add_new_def)

lemma set_foldl_add_new: "set (foldl add_new acc xs) = set acc \<union> set xs"
  by (induction xs arbitrary: acc) (auto simp: set_add_new)

lemma index_of_add_new: "x \<in> set acc \<Longrightarrow> index_of (add_new acc y) x = index_of acc x"
  by (simp add: add_new_def index_of_append)

lemma index_of_foldl_add_new:
  "x \<in> set acc \<Longrightarrow> index_of (foldl add_new acc ys) x = index_of acc x"
proof (induction ys arbitrary: acc)
  case Nil
  then show ?case by simp
next
  case (Cons y ys)
  have "x \<in> set (add_new acc y)" using Cons.prems by (simp add: set_add_new)
  from Cons.IH[OF this] show ?case using Cons.prems by (simp add: index_of_add_new)
qed

lemma distinct_add_new: "distinct acc \<Longrightarrow> distinct (add_new acc x)"
  by (simp add: add_new_def)

lemma distinct_foldl_add_new: "distinct acc \<Longrightarrow> distinct (foldl add_new acc xs)"
  by (induction xs arbitrary: acc) (simp_all add: distinct_add_new)

lemma vm_ok_zip:
  "vm_ok vm \<longleftrightarrow> (vm = zip (map fst vm) (map generateShortName [0..<length vm]) \<and> distinct (map fst vm))"
  unfolding vm_ok_def
  by (metis length_map map_snd_zip zip_map_fst_snd length_upt minus_nat.diff_0)

lemma map_of_vm_ok:
  "vm_ok vm \<Longrightarrow> x \<in> fst ` set vm \<Longrightarrow>
     map_of vm x = Some (generateShortName (index_of (map fst vm) x))"
proof (induction vm rule: rev_induct)
  case Nil
  then show ?case by simp
next
  case (snoc kv vm)
  obtain k s where kv: "kv = (k, s)" by (cases kv)
  from snoc.prems(1) have ok: "vm_ok vm" and s: "s = generateShortName (length vm)"
    and k: "k \<notin> fst ` set vm"
    by (auto simp: vm_ok_def kv)
  show ?case
  proof (cases "x \<in> fst ` set vm")
    case True
    then have "map_of vm x \<noteq> None" by (simp add: map_of_eq_None_iff)
    then show ?thesis
      using snoc.IH[OF ok True] True by (auto simp: kv map_add_def index_of_append split: option.splits)
  next
    case False
    with snoc.prems(2) have xk: "x = k" by (auto simp: kv)
    have "map_of vm x = None" using False by (simp add: map_of_eq_None_iff)
    moreover have "index_of (map fst vm @ [k]) k = length vm"
      using k index_of_new[of k "map fst vm"] by simp
    ultimately show ?thesis by (simp add: kv xk s map_add_def)
  qed
qed

lemma getVarName_step:
  assumes "minify (options g)" "vm_ok (varMap g)" "getVarName g x = (r, g')"
  shows "map fst (varMap g') = add_new (map fst (varMap g)) x"
    and "vm_ok (varMap g')" and "minify (options g')"
    and "r = Some (generateShortName (index_of (map fst (varMap g')) x))"
proof -
  show ok': "vm_ok (varMap g')" by (rule getVarName_vm_ok[OF assms(3,2)])
  show k: "map fst (varMap g') = add_new (map fst (varMap g)) x"
  proof (cases "map_of (varMap g) x")
    case None
    then have "x \<notin> set (map fst (varMap g))" by (simp add: map_of_eq_None_iff)
    then show ?thesis using assms(1,3) None by (auto simp: getVarName_minify add_new_def)
  next
    case (Some s)
    then have "x \<in> set (map fst (varMap g))" by (metis map_of_eq_None_iff option.distinct(1) list.set_map)
    then show ?thesis using assms(1,3) Some by (auto simp: getVarName_minify add_new_def)
  qed
  show "minify (options g')"
    using assms(1,3) by (auto simp: getVarName_minify split: option.splits)
  have in': "x \<in> fst ` set (varMap g')"
    using k set_add_new[of "map fst (varMap g)" x] by (metis insertI1 list.set_map)
  have "r = map_of (varMap g') x"
    using assms(1,3) by (auto simp: getVarName_minify map_add_def split: option.splits)
  then show "r = Some (generateShortName (index_of (map fst (varMap g')) x))"
    using map_of_vm_ok[OF ok' in'] by simp
qed

lemma getVarNames_seq:
  assumes "minify (options g)" "vm_ok (varMap g)" "getVarNames g xs = (rs, g')"
  shows "map fst (varMap g') = foldl add_new (map fst (varMap g)) xs
       \<and> vm_ok (varMap g') \<and> minify (options g')
       \<and> rs = map (\<lambda>x. Some (generateShortName (index_of (map fst (varMap g')) x))) xs"
  using assms
proof (induction xs arbitrary: g rs g')
  case Nil
  then show ?case by simp
next
  case (Cons x xs)
  obtain r g1 where g1: "getVarName g x = (r, g1)" by (cases "getVarName g x")
  obtain rs1 g2 where g2: "getVarNames g1 xs = (rs1, g2)" by (cases "getVarNames g1 xs")
  from Cons.prems(3) g1 g2 have rs: "rs = r # rs1" and g': "g' = g2" by simp_all
  note s = getVarName_step[OF Cons.prems(1,2) g1]
  note ih = Cons.IH[OF s(3) s(2) g2]
  have x1: "x \<in> set (map fst (varMap g1))"
    using s(1) by (simp add: set_add_new)
  have "index_of (map fst (varMap g2)) x = index_of (map fst (varMap g1)) x"
    using ih x1 index_of_foldl_add_new[of x "map fst (varMap g1)" xs] by simp
  then show ?case
    using ih s rs g' by simp
qed

lemma getVarNames_fresh:
  assumes "minify (options g)" "varMap g = []"
  shows "fst (getVarNames g xs) = map (\<lambda>x. Some (generateShortName (index_of (first_uses xs) x))) xs"
    and "varMap (snd (getVarNames g xs))
           = zip (first_uses xs) (map generateShortName [0..<length (first_uses xs)])"
proof -
  obtain rs g' where e: "getVarNames g xs = (rs, g')" by (cases "getVarNames g xs")
  have ok: "vm_ok (varMap g)" using assms(2) by (simp add: vm_ok_def)
  note t = getVarNames_seq[OF assms(1) ok e]
  have k: "map fst (varMap g') = first_uses xs"
    using t assms(2) by (simp add: first_uses_def)
  show "fst (getVarNames g xs) = map (\<lambda>x. Some (generateShortName (index_of (first_uses xs) x))) xs"
    using t k e by simp
  have "vm_ok (varMap g')" using t by simp
  then have "varMap g' = zip (map fst (varMap g')) (map generateShortName [0..<length (varMap g')])"
    by (simp add: vm_ok_zip)
  then show "varMap (snd (getVarNames g xs))
           = zip (first_uses xs) (map generateShortName [0..<length (first_uses xs)])"
    using k e by (metis length_map snd_conv)
qed


lemma getVarNames_Cons:
  "getVarNames g (a # as) =
     (fst (getVarName g a) # fst (getVarNames (snd (getVarName g a)) as),
      snd (getVarNames (snd (getVarName g a)) as))"
  by (simp split: prod.splits)

lemma getVarName_options [simp]: "options (snd (getVarName g x)) = options g"
  by (simp add: getVarName_def Let_def split: option.splits)

lemma getVarNames_options [simp]: "options (snd (getVarNames g xs)) = options g"
  by (induction xs arbitrary: g) (simp_all add: getVarNames_Cons del: getVarNames.simps(2))

lemma getVarName_options_eq: "getVarName g x = (r, g1) \<Longrightarrow> options g1 = options g"
  using getVarName_options[of g x] by simp

lemma getVarNames_options_eq: "getVarNames g xs = (rs, g1) \<Longrightarrow> options g1 = options g"
  using getVarNames_options[of g xs] by simp

lemma getVarNames_append:
  "getVarNames g (xs @ ys) =
     (case getVarNames g xs of (rs, g1) \<Rightarrow>
        case getVarNames g1 ys of (rs', g2) \<Rightarrow> (rs @ rs', g2))"
  by (induction xs arbitrary: g) (simp_all split: prod.splits)

lemma getVarName_cong:
  assumes "varMap g = varMap h" and "options g = options h"
  shows "fst (getVarName g x) = fst (getVarName h x)
       \<and> varMap (snd (getVarName g x)) = varMap (snd (getVarName h x))"
  using assms by (simp add: getVarName_def Let_def split: option.splits)

lemma getVarNames_cong:
  assumes "varMap g = varMap h" and "options g = options h"
  shows "fst (getVarNames g xs) = fst (getVarNames h xs)
       \<and> varMap (snd (getVarNames g xs)) = varMap (snd (getVarNames h xs))"
  using assms
proof (induction xs arbitrary: g h)
  case Nil
  then show ?case by simp
next
  case (Cons x xs)
  note c = getVarName_cong[OF Cons.prems, of x]
  have o: "options (snd (getVarName g x)) = options (snd (getVarName h x))"
    using Cons.prems(2) by simp
  note ih = Cons.IH[OF conjunct2[OF c] o]
  show ?case using c ih by (simp add: getVarNames_Cons del: getVarNames.simps(2))
qed

lemma emitAlloc_lookups:
  "op inst = Alloc \<Longrightarrow> emitAlloc g inst = Inr g' \<Longrightarrow>
     varMap g' = varMap (snd (getVarNames g (lookups inst))) \<and> options g' = options g"
  by (auto simp: emitAlloc_def lookups_def Let_def case_prod_beta split: option.splits if_splits)

lemma emitLoad_lookups:
  "op inst = Load \<Longrightarrow> emitLoad g inst = Inr g' \<Longrightarrow>
     varMap g' = varMap (snd (getVarNames g (lookups inst))) \<and> options g' = options g"
  by (auto simp: emitLoad_def lookups_def Let_def case_prod_beta split: option.splits if_splits)

lemma emitStore_lookups:
  "op inst = Store \<Longrightarrow> emitStore g inst = Inr g' \<Longrightarrow>
     varMap g' = varMap (snd (getVarNames g (lookups inst))) \<and> options g' = options g"
  by (auto simp: emitStore_def lookups_def Let_def case_prod_beta split: option.splits if_splits)

lemma emitCreateElement_lookups:
  "op inst = CreateElement \<Longrightarrow> emitCreateElement g inst = Inr g' \<Longrightarrow>
     varMap g' = varMap (snd (getVarNames g (lookups inst))) \<and> options g' = options g"
  by (auto simp: emitCreateElement_def lookups_def Let_def case_prod_beta split: option.splits if_splits)

lemma emitCreateText_lookups:
  "op inst = CreateText \<Longrightarrow> emitCreateText g inst = Inr g' \<Longrightarrow>
     varMap g' = varMap (snd (getVarNames g (lookups inst))) \<and> options g' = options g"
  by (auto simp: emitCreateText_def lookups_def Let_def case_prod_beta split: option.splits if_splits)

lemma emitSetProp_lookups:
  "op inst = SetProp \<Longrightarrow> emitSetProp g inst = Inr g' \<Longrightarrow>
     varMap g' = varMap (snd (getVarNames g (lookups inst))) \<and> options g' = options g"
  by (auto simp: emitSetProp_def lookups_def Let_def case_prod_beta split: option.splits if_splits)

lemma emitAppendChild_lookups:
  "op inst = AppendChild \<Longrightarrow> emitAppendChild g inst = Inr g' \<Longrightarrow>
     varMap g' = varMap (snd (getVarNames g (lookups inst))) \<and> options g' = options g"
  by (auto simp: emitAppendChild_def lookups_def Let_def case_prod_beta split: option.splits if_splits)

lemma emitMount_lookups:
  "op inst = Mount \<Longrightarrow> emitMount g inst = Inr g' \<Longrightarrow>
     varMap g' = varMap (snd (getVarNames g (lookups inst))) \<and> options g' = options g"
  by (auto simp: emitMount_def lookups_def Let_def case_prod_beta split: option.splits if_splits)

lemma emitPatch_lookups:
  "op inst = Patch \<Longrightarrow> emitPatch g inst = Inr g' \<Longrightarrow>
     varMap g' = varMap (snd (getVarNames g (lookups inst))) \<and> options g' = options g"
  by (auto simp: emitPatch_def lookups_def Let_def case_prod_beta split: option.splits if_splits)

lemma emitReturn_lookups:
  "op inst = Return \<Longrightarrow> emitReturn g inst = Inr g' \<Longrightarrow>
     varMap g' = varMap (snd (getVarNames g (lookups inst))) \<and> options g' = options g"
  by (auto simp: emitReturn_def lookups_def Let_def case_prod_beta split: option.splits if_splits)

lemma emitCall_lookups:
  "op inst = Call \<Longrightarrow> emitCall g inst = Inr g' \<Longrightarrow>
     varMap g' = varMap (snd (getVarNames g (lookups inst))) \<and> options g' = options g"
  by (auto simp: emitCall_def lookups_def Let_def getVarNames_append case_prod_beta
           split: option.splits if_splits)


lemma emitInstruction_lookups:
  assumes "emitInstruction g inst = Inr g'"
  shows "varMap g' = varMap (snd (getVarNames g (lookups inst))) \<and> options g' = options g"
proof (cases "op inst")
  case Alloc
  then show ?thesis using assms emitAlloc_lookups[of inst g g'] by (simp add: emitInstruction_def)
next
  case Assign
  then show ?thesis using assms by (simp add: emitInstruction_def lookups_def)
next
  case Load
  then show ?thesis using assms emitLoad_lookups[of inst g g'] by (simp add: emitInstruction_def)
next
  case Store
  then show ?thesis using assms emitStore_lookups[of inst g g'] by (simp add: emitInstruction_def)
next
  case Call
  then show ?thesis using assms emitCall_lookups[of inst g g'] by (simp add: emitInstruction_def)
next
  case Branch
  then show ?thesis using assms by (simp add: emitInstruction_def lookups_def)
next
  case Phi
  then show ?thesis using assms by (simp add: emitInstruction_def lookups_def)
next
  case Return
  then show ?thesis using assms emitReturn_lookups[of inst g g'] by (simp add: emitInstruction_def)
next
  case CreateElement
  then show ?thesis using assms emitCreateElement_lookups[of inst g g']
    by (simp add: emitInstruction_def)
next
  case CreateText
  then show ?thesis using assms emitCreateText_lookups[of inst g g']
    by (simp add: emitInstruction_def)
next
  case SetProp
  then show ?thesis using assms emitSetProp_lookups[of inst g g'] by (simp add: emitInstruction_def)
next
  case AppendChild
  then show ?thesis using assms emitAppendChild_lookups[of inst g g']
    by (simp add: emitInstruction_def)
next
  case Mount
  then show ?thesis using assms emitMount_lookups[of inst g g'] by (simp add: emitInstruction_def)
next
  case Patch
  then show ?thesis using assms emitPatch_lookups[of inst g g'] by (simp add: emitInstruction_def)
qed

lemma emitInstructions_lookups:
  "emitInstructions g insts = Inr g' \<Longrightarrow>
     varMap g' = varMap (snd (getVarNames g (concat (map lookups insts))))
     \<and> options g' = options g"
proof (induction insts arbitrary: g)
  case Nil
  then show ?case by simp
next
  case (Cons i insts)
  from Cons.prems obtain g1 where e1: "emitInstruction g i = Inr g1"
    and e2: "emitInstructions g1 insts = Inr g'"
    by (auto split: sum.splits)
  note l1 = emitInstruction_lookups[OF e1]
  note ih = Cons.IH[OF e2]
  have o: "options g1 = options (snd (getVarNames g (lookups i)))"
    using l1 by simp
  note c = getVarNames_cong[OF conjunct1[OF l1] o, of "concat (map lookups insts)"]
  have "varMap g' = varMap (snd (getVarNames (snd (getVarNames g (lookups i)))
                                  (concat (map lookups insts))))"
    using ih c by simp
  then show ?case
    using ih l1 by (simp add: getVarNames_append case_prod_beta)
qed

lemma emitBlocks_lookups:
  assumes "map_of (blocks irep) (entry irep) = Some b" and "emitBlocks g irep = Inr g'"
  shows "varMap g' = varMap (snd (getVarNames g (concat (map lookups (instructions b)))))
       \<and> options g' = options g"
proof -
  let ?g2 = "indentInc (emit g ''return (function render(props, state) {'')"
  from assms obtain g3 where e: "emitInstructions ?g2 (instructions b) = Inr g3"
    and g': "g' = emit (indentDec g3) ''});''"
    by (auto simp: emitBlocks_def Let_def split: sum.splits)
  note l = emitInstructions_lookups[OF e]
  have "varMap ?g2 = varMap g" and "options ?g2 = options g"
    by simp_all
  note c = getVarNames_cong[OF this, of "concat (map lookups (instructions b))"]
  show ?thesis
    using l c g' by simp
qed

lemma generate_lookups:
  assumes "map_of (blocks irep) (entry irep) = Some b" and "generate g irep = Inr (code, g')"
  shows "varMap g' = varMap (snd (getVarNames g (concat (map lookups (instructions b)))))
       \<and> options g' = options g"
proof -
  let ?g1 = "emitHeader (g\<lparr>output_buf := [], indent := 0\<rparr>)"
  from assms(2) obtain g2 where e: "emitBlocks ?g1 irep = Inr g2" and g': "g' = emitFooter g2"
    by (auto simp: generate_def Let_def split: sum.splits)
  note l = emitBlocks_lookups[OF assms(1) e]
  have "varMap ?g1 = varMap g" and "options ?g1 = options g"
    by (simp_all add: emitHeader_fields)
  note c = getVarNames_cong[OF this, of "concat (map lookups (instructions b))"]
  show ?thesis
    using l c g' by (simp add: emitFooter_fields emitHeader_fields)
qed

lemma index_of_eq:
  "x \<in> set ys \<Longrightarrow> y \<in> set ys \<Longrightarrow> index_of ys x = index_of ys y \<Longrightarrow> x = y"
  by (metis nth_index_of)

section \<open>Claims about the code generator\<close>

text \<open>The generator run on the IR of \<open><div>hi</div>\<close>, minified.\<close>

lemma generate_ir_hi:
  \<open>generate (new_CodeGenerator opts_min) ir_hi =
     Inr (''(function(h, mount, patch) {"use strict";const _cache = new Map();return (function render(props, state) {const a = h('div', {});const b = "hi";if (!a.children) a.children = [];a.children.push(b);});})(h, mount, patch);'',
          \<lparr>options = \<lparr>target = JS, minify = True, inlineCache = True,
                        staticOptimization = True\<rparr>,
           output_buf =
             [''(function(h, mount, patch) {'',
              ''"use strict";'',
              ''const _cache = new Map();'',
              ''return (function render(props, state) {'',
              ''const a = h('div', {});'',
              ''const b = "hi";'',
              ''if (!a.children) a.children = [];'',
              ''a.children.push(b);'',
              ''});'',
              ''})(h, mount, patch);''],
           indent = 0,
           varMap = [(Some ''el0'', ''a''), (Some ''txt1'', ''b'')],
           staticCache = []\<rparr>)\<close>
  by code_simp


text \<open>
  C5 (as amended). With \<open>minify\<close> on, short names are assigned in first-use order:
  a generator with an empty rename map that looks up the names \<open>xs\<close> one after the
  other returns, for each of them, \<open>generateShortName k\<close>, where \<open>k\<close> is the
  position of the name among the distinct names of \<open>xs\<close> in the order of their first
  occurrence (a name seen before gets the short name it got the first time, a new name
  the next one). The lookups of a generation call are those of the instructions of the
  entry block, in order (\<open>lookups\<close>, \<open>emitInstruction_lookups\<close>), and the rename
  map that the call ends with pairs the distinct names looked up, in first-use order, with
  \<open>generateShortName 0, 1, 2, ...\<close>. \<open>generateShortName k\<close> is the base-26 numeral
  of \<open>k\<close> written with the digits \<open>a\<close> .. \<open>z\<close> and without a leading \<open>a\<close>:
  the first 26 names are the single letters, a longer name is the name of \<open>k div 26\<close>
  followed by the letter of \<open>k mod 26\<close>, so the sequence is a, b, ..., z, ba, bb, ...
  and the 27th distinct name is renamed \<open>ba\<close>.
\<close>

theorem short_names_first_use_order:
  assumes "minify (options g0)" and "varMap g0 = []"
  shows "fst (getVarNames g0 xs)
           = map (\<lambda>x. Some (generateShortName (index_of (first_uses xs) x))) xs
       \<and> (map_of (blocks irep) (entry irep) = Some b \<and> generate g0 irep = Inr (code, g) \<longrightarrow>
            varMap g = zip (first_uses (concat (map lookups (instructions b))))
                           (map generateShortName
                              [0..<length (first_uses (concat (map lookups (instructions b))))]))
       \<and> (\<forall>i<26. generateShortName i = [chars ! i])
       \<and> generateShortName 26 = ''ba''
       \<and> (\<forall>n\<ge>26. generateShortName n = generateShortName (n div 26) @ [chars ! (n mod 26)])"
proof (intro conjI impI)
  show "fst (getVarNames g0 xs)
           = map (\<lambda>x. Some (generateShortName (index_of (first_uses xs) x))) xs"
    by (rule getVarNames_fresh(1)[OF assms])
  show "\<forall>i<26. generateShortName i = [chars ! i]"
    by (simp add: gsn_small)
  show "generateShortName 26 = ''ba''"
    by (rule gsn_26[OF refl])
  show "\<forall>n\<ge>26. generateShortName n = generateShortName (n div 26) @ [chars ! (n mod 26)]"
    by (simp add: gsn_rec)
next
  assume a: "map_of (blocks irep) (entry irep) = Some b \<and> generate g0 irep = Inr (code, g)"
  note l = generate_lookups[OF conjunct1[OF a] conjunct2[OF a]]
  show "varMap g = zip (first_uses (concat (map lookups (instructions b))))
                           (map generateShortName
                              [0..<length (first_uses (concat (map lookups (instructions b))))])"
    using l getVarNames_fresh(2)[OF assms, of "concat (map lookups (instructions b))"] by simp
qed

theorem short_names_first_use_order_witness:
  \<open>minify (options (new_CodeGenerator opts_min))
   \<and> varMap (new_CodeGenerator opts_min) = []
   \<and> fst (getVarNames (new_CodeGenerator opts_min)
            (concat (map lookups (instructions (snd (hd (blocks ir_call27)))))))
       = map Some [''a'', ''b'', ''c'', ''d'', ''e'', ''f'', ''g'', ''h'', ''i'', ''j'', ''k'', ''l'', ''m'', ''n'', ''o'', ''p'', ''q'', ''r'', ''s'', ''t'', ''u'', ''v'', ''w'', ''x'', ''y'', ''z'', ''ba'']
   \<and> map_of (blocks ir_hi) (entry ir_hi) = Some (snd (hd (blocks ir_hi)))
   \<and> generate (new_CodeGenerator opts_min) ir_hi =
     Inr (''(function(h, mount, patch) {"use strict";const _cache = new Map();return (function render(props, state) {const a = h('div', {});const b = "hi";if (!a.children) a.children = [];a.children.push(b);});})(h, mount, patch);'',
          \<lparr>options = \<lparr>target = JS, minify = True, inlineCache = True,
                        staticOptimization = True\<rparr>,
           output_buf =
             [''(function(h, mount, patch) {'',
              ''"use strict";'',
              ''const _cache = new Map();'',
              ''return (function render(props, state) {'',
              ''const a = h('div', {});'',
              ''const b = "hi";'',
              ''if (!a.children) a.children = [];'',
              ''a.children.push(b);'',
              ''});'',
              ''})(h, mount, patch);''],
           indent = 0,
           varMap = [(Some ''el0'', ''a''), (Some ''txt1'', ''b'')],
           staticCache = []\<rparr>)
   \<and> [(Some ''el0'', ''a''), (Some ''txt1'', ''b'')]
       = zip (first_uses (concat (map lookups (instructions (snd (hd (blocks ir_hi)))))))
             (map generateShortName
                [0..<length (first_uses (concat (map lookups (instructions (snd (hd (blocks ir_hi)))))))])
   \<and> generateShortName 1 = ''b''
   \<and> generateShortName 26 = ''ba''
   \<and> generateShortName 27 = generateShortName 1 @ ''b''\<close>
  (is "?M \<and> ?V \<and> ?N \<and> ?B \<and> ?G \<and> ?Z \<and> ?R1 \<and> ?R2 \<and> ?R3")
proof -
  have m: ?M and v: ?V and b: ?B
    by code_simp+
  have g: ?G
    by (rule generate_ir_hi)
  note t = short_names_first_use_order[OF m v,
      of "concat (map lookups (instructions (snd (hd (blocks ir_call27)))))"
         ir_hi "snd (hd (blocks ir_hi))"]
  have e: "map (\<lambda>x. Some (generateShortName (index_of (first_uses
               (concat (map lookups (instructions (snd (hd (blocks ir_call27))))))) x)))
             (concat (map lookups (instructions (snd (hd (blocks ir_call27))))))
           = map Some [''a'', ''b'', ''c'', ''d'', ''e'', ''f'', ''g'', ''h'', ''i'', ''j'', ''k'', ''l'', ''m'', ''n'', ''o'', ''p'', ''q'', ''r'', ''s'', ''t'', ''u'', ''v'', ''w'', ''x'', ''y'', ''z'', ''ba'']"
    by code_simp
  have n: ?N
    using conjunct1[OF t] e by (rule trans)
  note t2 = conjunct2[OF t]
  have z: ?Z
    using mp[OF conjunct1[OF t2] conjI[OF b g]] by simp
  note t3 = conjunct2[OF t2]
  have "1 < (26::nat)" by simp
  with conjunct1[OF t3] have "generateShortName 1 = [chars ! 1]" by blast
  then have r1: ?R1 by (simp add: chars_def)
  note t4 = conjunct2[OF t3]
  have r2: ?R2
    by (rule conjunct1[OF t4])
  have "generateShortName 27 = generateShortName (27 div 26) @ [chars ! (27 mod 26)]"
    using conjunct2[OF t4] by simp
  then have r3: ?R3
    by (simp add: chars_def)
  show ?thesis
    using m v n b g z r1 r2 r3 by (intro conjI)
qed

text \<open>
  C5 fails as stated: a call that mentions 27 distinct names renames the 27th
  (\<open>p26\<close>) to \<open>ba\<close>, not to \<open>aa\<close>.
\<close>

theorem short_names_27th_counterexample:
  \<open>generateCode ir_call27 opts_min =
     Inr ''(function(h, mount, patch) {"use strict";const _cache = new Map();return (function render(props, state) {const a = Big(b, c, d, e, f, g, h, i, j, k, l, m, n, o, p, q, r, s, t, u, v, w, x, y, z, ba);});})(h, mount, patch);''\<close>
  by code_simp

text \<open>
  C6. With \<open>minify\<close> on, the renaming within one generation call is injective. A
  generator with an empty rename map that looks up the names \<open>xs\<close> one after the other
  returns a short name at every lookup, and the short names returned at two lookups are
  equal exactly when the two original names are equal. The lookups of a generation call
  are those of the instructions of the entry block, in order (\<open>lookups\<close>,
  \<open>emitInstruction_lookups\<close>): the rename map the call ends with is the one these
  lookups build, it holds every name looked up, and it is injective on them.
\<close>

theorem minify_renaming_injective:
  assumes "minify (options g0)" and "varMap g0 = []"
    and "i < length xs" and "j < length xs"
  shows "(\<exists>s. fst (getVarNames g0 xs) ! i = Some s)
       \<and> (fst (getVarNames g0 xs) ! i = fst (getVarNames g0 xs) ! j \<longleftrightarrow> xs ! i = xs ! j)
       \<and> (map_of (blocks irep) (entry irep) = Some b \<and> generate g0 irep = Inr (code, g) \<longrightarrow>
            varMap g = varMap (snd (getVarNames g0 (concat (map lookups (instructions b)))))
            \<and> inj_on (map_of (varMap g)) (set (concat (map lookups (instructions b))))
            \<and> (\<forall>x \<in> set (concat (map lookups (instructions b))). map_of (varMap g) x \<noteq> None))"
proof (intro conjI impI)
  note f = getVarNames_fresh(1)[OF assms(1,2), of xs]
  show "\<exists>s. fst (getVarNames g0 xs) ! i = Some s"
    using f assms(3) by simp
  have xi: "xs ! i \<in> set (first_uses xs)" and xj: "xs ! j \<in> set (first_uses xs)"
    using assms(3,4) by (simp_all add: first_uses_def set_foldl_add_new)
  show "fst (getVarNames g0 xs) ! i = fst (getVarNames g0 xs) ! j \<longleftrightarrow> xs ! i = xs ! j"
    using f assms(3,4) index_of_eq[OF xi xj] by (auto dest: gsn_inj)
next
  assume a: "map_of (blocks irep) (entry irep) = Some b \<and> generate g0 irep = Inr (code, g)"
  let ?tr = "concat (map lookups (instructions b))"
  note l = generate_lookups[OF conjunct1[OF a] conjunct2[OF a]]
  show v: "varMap g = varMap (snd (getVarNames g0 ?tr))"
    using l by simp
  have z: "varMap g = zip (first_uses ?tr) (map generateShortName [0..<length (first_uses ?tr)])"
    using v getVarNames_fresh(2)[OF assms(1,2), of ?tr] by simp
  have ok: "vm_ok (varMap g)"
    using z by (simp add: vm_ok_def first_uses_def distinct_foldl_add_new)
  have k: "map fst (varMap g) = first_uses ?tr"
    using z by simp
  have m: "map_of (varMap g) x = Some (generateShortName (index_of (first_uses ?tr) x))"
    if "x \<in> set ?tr" for x
  proof -
    from that have "x \<in> set (first_uses ?tr)"
      by (simp add: first_uses_def set_foldl_add_new)
    then have "x \<in> fst ` set (varMap g)"
      using k by (metis list.set_map)
    from map_of_vm_ok[OF ok this] k show ?thesis by simp
  qed
  show "\<forall>x \<in> set ?tr. map_of (varMap g) x \<noteq> None"
    using m by simp
  show "inj_on (map_of (varMap g)) (set ?tr)"
  proof (rule inj_onI)
    fix x y assume x: "x \<in> set ?tr" and y: "y \<in> set ?tr"
      and e: "map_of (varMap g) x = map_of (varMap g) y"
    have "index_of (first_uses ?tr) x = index_of (first_uses ?tr) y"
      using e m[OF x] m[OF y] by (auto dest: gsn_inj)
    moreover have "x \<in> set (first_uses ?tr)" "y \<in> set (first_uses ?tr)"
      using x y by (simp_all add: first_uses_def set_foldl_add_new)
    ultimately show "x = y"
      by (rule index_of_eq[rotated 2])
  qed
qed

theorem minify_renaming_injective_witness:
  \<open>minify (options (new_CodeGenerator opts_min))
   \<and> varMap (new_CodeGenerator opts_min) = []
   \<and> 0 < length (concat (map lookups (instructions (snd (hd (blocks ir_call27))))))
   \<and> 26 < length (concat (map lookups (instructions (snd (hd (blocks ir_call27))))))
   \<and> concat (map lookups (instructions (snd (hd (blocks ir_call27))))) ! 0 = Some ''comp0''
   \<and> concat (map lookups (instructions (snd (hd (blocks ir_call27))))) ! 26 = Some ''p26''
   \<and> fst (getVarNames (new_CodeGenerator opts_min)
            (concat (map lookups (instructions (snd (hd (blocks ir_call27))))))) ! 0
       \<noteq> fst (getVarNames (new_CodeGenerator opts_min)
            (concat (map lookups (instructions (snd (hd (blocks ir_call27))))))) ! 26
   \<and> map_of (blocks ir_hi) (entry ir_hi) = Some (snd (hd (blocks ir_hi)))
   \<and> generate (new_CodeGenerator opts_min) ir_hi =
     Inr (''(function(h, mount, patch) {"use strict";const _cache = new Map();return (function render(props, state) {const a = h('div', {});const b = "hi";if (!a.children) a.children = [];a.children.push(b);});})(h, mount, patch);'',
          \<lparr>options = \<lparr>target = JS, minify = True, inlineCache = True,
                        staticOptimization = True\<rparr>,
           output_buf =
             [''(function(h, mount, patch) {'',
              ''"use strict";'',
              ''const _cache = new Map();'',
              ''return (function render(props, state) {'',
              ''const a = h('div', {});'',
              ''const b = "hi";'',
              ''if (!a.children) a.children = [];'',
              ''a.children.push(b);'',
              ''});'',
              ''})(h, mount, patch);''],
           indent = 0,
           varMap = [(Some ''el0'', ''a''), (Some ''txt1'', ''b'')],
           staticCache = []\<rparr>)
   \<and> concat (map lookups (instructions (snd (hd (blocks ir_hi)))))
       = [Some ''el0'', Some ''txt1'', Some ''el0'', Some ''txt1'']
   \<and> map_of [(Some ''el0'', ''a''), (Some ''txt1'', ''b'')] (Some ''el0'')
       \<noteq> map_of [(Some ''el0'', ''a''), (Some ''txt1'', ''b'')] (Some ''txt1'')\<close>
  (is "?M \<and> ?V \<and> ?I \<and> ?J \<and> ?XI \<and> ?XJ \<and> ?N \<and> ?B \<and> ?G \<and> ?T \<and> ?D")
proof -
  have m: ?M and v: ?V and i: ?I and j: ?J and xi: ?XI and xj: ?XJ and b: ?B and tr: ?T
    by code_simp+
  have g: ?G
    by (rule generate_ir_hi)
  note t = minify_renaming_injective[OF m v i j, of ir_hi "snd (hd (blocks ir_hi))"]
  have n: ?N
    using conjunct1[OF conjunct2[OF t]] xi xj by simp
  note t3 = mp[OF conjunct2[OF conjunct2[OF t]] conjI[OF b g]]
  have inj: "inj_on (map_of [(Some ''el0'', ''a''), (Some ''txt1'', ''b'')])
               (set [Some ''el0'', Some ''txt1'', Some ''el0'', Some ''txt1''])"
    using conjunct1[OF conjunct2[OF t3]] tr by simp
  have d: ?D
    using inj_onD[OF inj, of "Some ''el0''" "Some ''txt1''"] by auto
  show ?thesis
    using m v i j xi xj n b g tr d by (intro conjI)
qed

text \<open>
  C8. Whatever the IR and the other options, \<open>generateCode\<close> returns the same result
  (the same output string, or the same error) for target \<open>js\<close> and target \<open>wasm\<close>:
  the generator stores the option and never reads it.
\<close>

theorem target_irrelevant:
  "generateCode irep (opts\<lparr>p_target := Some JS\<rparr>) = generateCode irep (opts\<lparr>p_target := Some Wasm\<rparr>)"
  by (simp add: generateCode_retarget)

text \<open>
  C9 (as amended). When the block map has no entry under the entry id,
  \<open>generateCode\<close> does not raise; it returns the header and the footer only. The
  factory body then holds the \<open>"use strict"\<close> directive (and the cache declaration
  when \<open>staticOptimization\<close> is on) and nothing else: no \<open>render\<close> function is
  emitted and the factory returns nothing.
\<close>

theorem no_entry_block:
  assumes "map_of (blocks irep) (entry irep) = None"
  shows \<open>generateCode irep opts =
     (let os = options (new_CodeGenerator opts);
          pad = (if minify os then [] else ''  '')
      in Inr (js_join (if minify os then [] else [newline])
               ([''(function(h, mount, patch) {'', pad @ ''"use strict";'']
                @ (if staticOptimization os then [pad @ ''const _cache = new Map();''] else [])
                @ [''})(h, mount, patch);''])))\<close>
proof -
  have i0: "indent (new_CodeGenerator opts\<lparr>output_buf := [], indent := 0\<rparr>) = 0"
    and ob: "output_buf (new_CodeGenerator opts\<lparr>output_buf := [], indent := 0\<rparr>) = []"
    and os: "options (new_CodeGenerator opts\<lparr>output_buf := [], indent := 0\<rparr>)
               = options (new_CodeGenerator opts)"
    by simp_all
  show ?thesis
    unfolding generateCode_def generate_no_entry[OF assms] Let_def
    by (simp add: emitFooter_fields emitHeader_fields i0 ob os)
qed

theorem no_entry_block_witness:
  \<open>map_of (blocks ir_no_entry) (entry ir_no_entry) = None
   \<and> generateCode ir_no_entry opts_default =
       Inr ''(function(h, mount, patch) {"use strict";const _cache = new Map();})(h, mount, patch);''\<close>
proof -
  have h: "map_of (blocks ir_no_entry) (entry ir_no_entry) = None"
    by code_simp
  have \<open>generateCode ir_no_entry opts_default =
       Inr ''(function(h, mount, patch) {"use strict";const _cache = new Map();})(h, mount, patch);''\<close>
    by (subst no_entry_block[OF h]) code_simp
  with h show ?thesis
    by (rule conjI)
qed

text \<open>
  C9 fails as stated: a \<open>render\<close> function with an empty body is what an entry block
  without instructions gives; a missing entry block gives a program without any
  \<open>render\<close> function.
\<close>

theorem no_entry_block_counterexample:
  \<open>generateCode ir_no_entry opts_default =
     Inr ''(function(h, mount, patch) {"use strict";const _cache = new Map();})(h, mount, patch);''
   \<and> generateCode ir_empty_entry opts_default =
     Inr ''(function(h, mount, patch) {"use strict";const _cache = new Map();return (function render(props, state) {});})(h, mount, patch);''\<close>
  by code_simp

section \<open>The optimizer passes\<close>

lemma all_instructions_dce:
  "all_instructions (ir (deadCodeElimination b)) =
     filter (dce_keep (used_names (all_instructions (ir b)))) (all_instructions (ir b))"
  by (simp add: deadCodeElimination_def all_instructions_def Let_def filter_concat comp_def)

lemma fold_instructions_shape:
  "fold_instructions st insts = (insts', st') \<Longrightarrow>
     map (\<lambda>i. (op i, dest i)) insts' = map (\<lambda>i. (op i, dest i)) insts"
  by (induction insts arbitrary: st insts' st') (auto split: prod.splits option.splits)

lemma fold_blocks_shape:
  "fold_blocks st bs = (bs', st') \<Longrightarrow>
     map (\<lambda>i. (op i, dest i)) (concat (map (\<lambda>kb. instructions (snd kb)) bs'))
       = map (\<lambda>i. (op i, dest i)) (concat (map (\<lambda>kb. instructions (snd kb)) bs))"
  by (induction bs arbitrary: st bs' st') (auto split: prod.splits dest: fold_instructions_shape)

lemma constantFolding_shape:
  "map (\<lambda>i. (op i, dest i)) (all_instructions (ir (constantFolding b)))
     = map (\<lambda>i. (op i, dest i)) (all_instructions (ir b))"
  by (auto simp: constantFolding_def all_instructions_def Let_def split: prod.splits dest: fold_blocks_shape)

lemma cse_blocks: "blocks (ir (commonSubexpressionElimination b)) = blocks (ir b)"
  by (simp add: commonSubexpressionElimination_def split: prod.splits)

lemma optimize_shape:
  "map (\<lambda>i. (op i, dest i)) (all_instructions (ir (optimize b)))
     = map (\<lambda>i. (op i, dest i))
           (filter (dce_keep (used_names (all_instructions (ir b)))) (all_instructions (ir b)))"
  by (simp add: optimize_def all_instructions_def[of "ir (commonSubexpressionElimination _)"] cse_blocks
        all_instructions_def[symmetric] constantFolding_shape all_instructions_dce)


text \<open>The builder run on the tree of \<open><div id="x"/>\<close>.\<close>

lemma visitNode_div_id: "visitNode new_SSABuilder ast_div_id = Inr (''el0'', builder_div_id)"
  by code_simp

lemma buildSSA_div_id: "buildSSA ast_div_id = Inr ir_div_id"
  by code_simp

text \<open>Dead-code elimination is one pass: in \<open><txt1/>hello\<close> the element is dropped,
  and the text node, which only the dropped tag string "referenced", stays although
  nothing in the resulting IR refers to it.\<close>

lemma dce_single_pass_example:
  "buildSSA ast_tagclash =
     Inr \<lparr>blocks = [(0, \<lparr>bid = 0, instructions =
            [\<lparr>op = CreateText, dest = Some ''txt1'', args = None, ivalue = JString ''hello'',
               metadata = Some [(''isStatic'', JBool True)], blockId = None\<rparr>],
            predecessors = [], successors = [], dominates = []\<rparr>)],
          entry = 0, variables = [], nextVarId = 0, nextBlockId = 0\<rparr>"
  by code_simp

section \<open>Claims about the SSA builder\<close>

text \<open>
  C2 (the code breaks it). For \<open><div id="x"/>\<close> the IR that \<open>buildSSA\<close> returns
  ends with \<open>set_prop el0, id, fold2\<close>: constant aliasing has replaced the argument
  \<open>const1\<close> by the fresh name \<open>fold2\<close>, which no instruction defines, so the
  invariant "every argument is an earlier destination or a literal tag/key" fails.
\<close>

theorem constant_folding_undefined_name:
  "buildSSA ast_div_id = Inr ir_div_id \<and> \<not> args_defined [] (all_instructions ir_div_id)"
  by code_simp

text \<open>
  C4 fails as stated: in the IR returned for \<open><div id="x"/>\<close> the instruction
  \<open>const1 = alloc "x"\<close> remains although no instruction of that IR has \<open>const1\<close>
  as an argument.
\<close>

theorem dce_final_ir_counterexample:
  "buildSSA ast_div_id = Inr ir_div_id
   \<and> filter (dead_in (all_instructions ir_div_id)) (all_instructions ir_div_id) =
       [\<lparr>op = Alloc, dest = Some ''const1'', args = None, ivalue = JString ''x'',
          metadata = Some [(''isStatic'', JBool True)], blockId = None\<rparr>]"
  by code_simp

text \<open>
  C4 (as amended). In the IR returned by \<open>buildSSA\<close>, every instruction other than
  \<open>call\<close> and \<open>store\<close> that has a (non-empty) destination -- in particular every
  remaining \<open>alloc\<close>, \<open>load\<close>, \<open>create_element\<close> and \<open>create_text\<close> -- has that
  destination among the arguments of the IR as the builder emitted it, before the
  optimizer passes: the referenced set is computed once, before anything is removed.
\<close>

theorem dce_keeps_only_referenced:
  assumes "visitNode new_SSABuilder ast = Inr (root, b)"
    and "buildSSA ast = Inr final"
    and "inst \<in> set (all_instructions final)"
    and "op inst \<noteq> Call" and "op inst \<noteq> Store"
    and "dest inst = Some d" and "d \<noteq> []"
  shows "Some d \<in> set (used_names (all_instructions (ir b)))"
proof -
  let ?used = "used_names (all_instructions (ir b))"
  from assms(1,2) have final: "final = ir (optimize b)"
    by (simp add: buildSSA_def build_def)
  from assms(3) have "(op inst, dest inst) \<in> set (map (\<lambda>i. (op i, dest i)) (all_instructions final))"
    by force
  then have "(op inst, dest inst) \<in> set (map (\<lambda>i. (op i, dest i)) (filter (dce_keep ?used) (all_instructions (ir b))))"
    by (simp only: final optimize_shape)
  then obtain i0 where "dce_keep ?used i0" and "op i0 = op inst" and "dest i0 = dest inst"
    by auto
  with assms(4-7) show ?thesis
    by (auto simp: dce_keep_def)
qed

theorem dce_keeps_only_referenced_witness:
  "visitNode new_SSABuilder ast_div_id = Inr (''el0'', builder_div_id)
   \<and> buildSSA ast_div_id = Inr ir_div_id
   \<and> hd (all_instructions ir_div_id) \<in> set (all_instructions ir_div_id)
   \<and> op (hd (all_instructions ir_div_id)) = CreateElement
   \<and> dest (hd (all_instructions ir_div_id)) = Some ''el0''
   \<and> Some ''el0'' \<in> set (used_names (all_instructions (ir builder_div_id)))"
proof -
  have i: "hd (all_instructions ir_div_id) \<in> set (all_instructions ir_div_id)"
    and o: "op (hd (all_instructions ir_div_id)) = CreateElement"
    and d: "dest (hd (all_instructions ir_div_id)) = Some ''el0''"
    by code_simp+
  have "Some ''el0'' \<in> set (used_names (all_instructions (ir builder_div_id)))"
    by (rule dce_keeps_only_referenced[OF visitNode_div_id buildSSA_div_id i _ _ d])
       (simp_all add: o)
  with visitNode_div_id buildSSA_div_id i o d show ?thesis
    by (intro conjI)
qed

section \<open>Scans of the tokenizer\<close>

subsection \<open>The brace scan of \<open>readAttribute\<close> past the end of the input\<close>

lemma advance_past_end:
  "length (source t) \<le> pos t \<Longrightarrow>
     advance t = (None, t\<lparr>pos := pos t + 1, column := column t + 1\<rparr>)"
  by (simp add: advance_def Let_def)

lemma attrBraceLoop_diverges_aux:
  assumes "attrBraceLoop t expr depth = Some r"
  shows "\<not> (length (source t) \<le> pos t \<and> 0 < depth)"
proof (rule attrBraceLoop.raw_induct
         [where P = "\<lambda>t expr depth r. \<not> (length (source t) \<le> pos t \<and> 0 < depth)", OF _ assms])
  fix loop :: "Tokenizer \<Rightarrow> string \<Rightarrow> nat \<Rightarrow> (string \<times> Tokenizer) option"
    and t expr depth r
  assume IH: "\<And>t expr depth r. loop t expr depth = Some r \<Longrightarrow>
                 \<not> (length (source t) \<le> pos t \<and> 0 < depth)"
    and step: "(if depth > 0
      then (case advance t of (c, t1) \<Rightarrow>
              (let d1 = (if c = Some CHR ''{'' then depth + 1 else depth);
                   d2 = (if c = Some CHR ''}'' then d1 - 1 else d1)
               in loop t1
                    (if d2 > 0 then expr @ (case c of None \<Rightarrow> ''undefined'' | Some ch \<Rightarrow> [ch])
                     else expr)
                    d2))
      else Some (expr, t)) = Some r"
  show "\<not> (length (source t) \<le> pos t \<and> 0 < depth)"
  proof
    assume a: "length (source t) \<le> pos t \<and> 0 < depth"
    then have "loop (t\<lparr>pos := pos t + 1, column := column t + 1\<rparr>) (expr @ ''undefined'') depth = Some r"
      using step by (simp add: advance_past_end)
    from IH[OF this] a show False by simp
  qed
qed

lemma attrBraceLoop_diverges:
  "length (source t) \<le> pos t \<Longrightarrow> 0 < depth \<Longrightarrow> attrBraceLoop t expr depth = None"
  using attrBraceLoop_diverges_aux[of t expr depth] by (cases "attrBraceLoop t expr depth") auto

lemma attrBraceLoop_code:
  "attrBraceLoop t expr depth =
     (if depth > 0
      then (if length (source t) \<le> pos t then None
            else (case advance t of (c, t1) \<Rightarrow>
              (let d1 = (if c = Some CHR ''{'' then depth + 1 else depth);
                   d2 = (if c = Some CHR ''}'' then d1 - 1 else d1)
               in attrBraceLoop t1
                    (if d2 > 0 then expr @ (case c of None \<Rightarrow> ''undefined'' | Some ch \<Rightarrow> [ch])
                     else expr)
                    d2)))
      else Some (expr, t))"
proof (cases "0 < depth \<and> length (source t) \<le> pos t")
  case True
  then show ?thesis
    by (simp add: attrBraceLoop_diverges)
next
  case False
  then show ?thesis
    by (subst attrBraceLoop.simps) auto
qed

text \<open>The equation above computes: it is used to evaluate the tokenizer on inputs
  where the scan never ends.\<close>

declare attrBraceLoop.simps [code del]

declare attrBraceLoop_code [code]


subsection \<open>The attribute loop when \<open>readAttribute\<close> consumes nothing\<close>

lemma readAttributes_stuck_aux:
  assumes "readAttributes t attrs = Some r"
  shows "\<not> (peek t \<noteq> None \<and> peek t \<noteq> Some CHR ''>'' \<and> peek t \<noteq> Some CHR ''/''
            \<and> (\<exists>attr t1. readAttribute t = Some (attr, t1) \<and> skipWhitespace t1 = t
                   \<and> obj_set attrs (fst attr) (snd attr) = attrs))"
proof (rule readAttributes.raw_induct
         [where P = "\<lambda>t attrs r. \<not> (peek t \<noteq> None \<and> peek t \<noteq> Some CHR ''>'' \<and> peek t \<noteq> Some CHR ''/''
            \<and> (\<exists>attr t1. readAttribute t = Some (attr, t1) \<and> skipWhitespace t1 = t
                   \<and> obj_set attrs (fst attr) (snd attr) = attrs))", OF _ assms])
  fix loop :: "Tokenizer \<Rightarrow> (string \<times> jsval) list \<Rightarrow> ((string \<times> jsval) list \<times> Tokenizer) option"
    and t attrs r
  assume IH: "\<And>t attrs r. loop t attrs = Some r \<Longrightarrow>
       \<not> (peek t \<noteq> None \<and> peek t \<noteq> Some CHR ''>'' \<and> peek t \<noteq> Some CHR ''/''
            \<and> (\<exists>attr t1. readAttribute t = Some (attr, t1) \<and> skipWhitespace t1 = t
                   \<and> obj_set attrs (fst attr) (snd attr) = attrs))"
    and step: "(if peek t \<noteq> None \<and> peek t \<noteq> Some CHR ''>'' \<and> peek t \<noteq> Some CHR ''/''
      then (case readAttribute t of
              None \<Rightarrow> None
            | Some (attr, t1) \<Rightarrow>
                loop (skipWhitespace t1) (obj_set attrs (fst attr) (snd attr)))
      else Some (attrs, t)) = Some r"
  show "\<not> (peek t \<noteq> None \<and> peek t \<noteq> Some CHR ''>'' \<and> peek t \<noteq> Some CHR ''/''
            \<and> (\<exists>attr t1. readAttribute t = Some (attr, t1) \<and> skipWhitespace t1 = t
                   \<and> obj_set attrs (fst attr) (snd attr) = attrs))"
  proof
    assume a: "peek t \<noteq> None \<and> peek t \<noteq> Some CHR ''>'' \<and> peek t \<noteq> Some CHR ''/''
            \<and> (\<exists>attr t1. readAttribute t = Some (attr, t1) \<and> skipWhitespace t1 = t
                   \<and> obj_set attrs (fst attr) (snd attr) = attrs)"
    then obtain attr t1 where ra: "readAttribute t = Some (attr, t1)" "skipWhitespace t1 = t"
      "obj_set attrs (fst attr) (snd attr) = attrs" by blast
    with a step have "loop t attrs = Some r" by simp
    from IH[OF this] a show False by blast
  qed
qed

lemma readAttributes_stuck:
  "peek t \<noteq> None \<Longrightarrow> peek t \<noteq> Some CHR ''>'' \<Longrightarrow> peek t \<noteq> Some CHR ''/'' \<Longrightarrow>
   readAttribute t = Some (attr, t1) \<Longrightarrow> skipWhitespace t1 = t \<Longrightarrow>
   obj_set attrs (fst attr) (snd attr) = attrs \<Longrightarrow> readAttributes t attrs = None"
  using readAttributes_stuck_aux[of t attrs] by (cases "readAttributes t attrs") auto

lemma readAttributes_code:
  "readAttributes t attrs =
     (if peek t \<noteq> None \<and> peek t \<noteq> Some CHR ''>'' \<and> peek t \<noteq> Some CHR ''/''
      then (case readAttribute t of
              None \<Rightarrow> None
            | Some (attr, t1) \<Rightarrow>
                if skipWhitespace t1 = t \<and> obj_set attrs (fst attr) (snd attr) = attrs then None
                else readAttributes (skipWhitespace t1) (obj_set attrs (fst attr) (snd attr)))
      else Some (attrs, t))"
proof (cases "peek t \<noteq> None \<and> peek t \<noteq> Some CHR ''>'' \<and> peek t \<noteq> Some CHR ''/''")
  case False
  then show ?thesis by (subst readAttributes.simps) auto
next
  case c: True
  show ?thesis
  proof (cases "readAttribute t")
    case None
    then show ?thesis using c by (subst readAttributes.simps) auto
  next
    case (Some p)
    obtain attr t1 where p: "p = (attr, t1)" by (cases p)
    show ?thesis
    proof (cases "skipWhitespace t1 = t \<and> obj_set attrs (fst attr) (snd attr) = attrs")
      case True
      then have "readAttributes t attrs = None"
        using c Some p by (intro readAttributes_stuck[of t attr t1]) auto
      then show ?thesis using c Some p True by simp
    next
      case False
      then show ?thesis using c Some p by (subst readAttributes.simps) auto
    qed
  qed
qed

declare readAttributes.simps [code del]

declare readAttributes_code [code]


subsection \<open>Reading up to the end of the input\<close>



















section \<open>Claims about the tokenizer\<close>




text \<open>
  C10 (the code breaks it). On \<open><div a={x\<close> the tokenizer does not return: the brace
  scan of \<open>readAttribute\<close> tests only \<open>depth > 0\<close>, and past the end of the input
  nothing changes \<open>depth\<close> any more (\<open>attrBraceLoop_diverges\<close>). The scan of
  \<open>readExpression\<close> has the test \<open>this.pos < this.source.length\<close> that this one lacks.
\<close>

theorem unclosed_attribute_brace_never_returns:
  "tokenize (new_Tokenizer ''<div a={x'') = None"
  by code_simp

text \<open>The attribute loop of \<open>readOpenTag\<close> does not return either when the next
  character can start neither an attribute nor the end of the tag.\<close>

lemma stray_character_in_tag_never_returns:
  "tokenize (new_Tokenizer ''<div !>'') = None"
  by code_simp

section \<open>The builder emits no \<open>return\<close> instruction\<close>

lemma set_push_instruction:
  "set (concat (map (\<lambda>kb. instructions (snd kb)) (push_instruction cur inst bs)))
     \<subseteq> set (concat (map (\<lambda>kb. instructions (snd kb)) bs)) \<union> {inst}"
  by (induction bs) (auto simp: push_instruction_def)

lemma ssa_emit_no_return:
  "no_return b \<Longrightarrow> op inst \<noteq> Return \<Longrightarrow> no_return (ssa_emit b inst)"
  using set_push_instruction[of "currentBlock b" inst "blocks (ir b)"]
  by (auto simp: no_return_def ssa_emit_def all_instructions_def)

lemma newVar_no_return: "newVar b p = (d, b1) \<Longrightarrow> no_return b \<Longrightarrow> no_return b1"
  by (auto simp: newVar_def no_return_def)

lemma visitValue_no_return: "visitValue b v = (d, b1) \<Longrightarrow> no_return b \<Longrightarrow> no_return b1"
  by (auto simp: visitValue_def Let_def split: if_splits prod.splits
        intro!: ssa_emit_no_return dest: newVar_no_return)

lemma visitAttributes_no_return: "no_return b \<Longrightarrow> no_return (visitAttributes b d kvs)"
proof (induction kvs arbitrary: b)
  case Nil
  then show ?case by simp
next
  case (Cons kv kvs)
  obtain vv b1 where v: "visitValue b (snd kv) = (vv, b1)" by (cases "visitValue b (snd kv)")
  from visitValue_no_return[OF v Cons.prems] have "no_return b1" .
  then show ?case using v by (auto intro!: Cons.IH ssa_emit_no_return)
qed

lemma visitText_no_return: "visitText b n = (d, b1) \<Longrightarrow> no_return b \<Longrightarrow> no_return b1"
  by (auto simp: visitText_def split: prod.splits intro!: ssa_emit_no_return dest: newVar_no_return)

lemma visitExpression_no_return: "visitExpression b n = (d, b1) \<Longrightarrow> no_return b \<Longrightarrow> no_return b1"
  by (auto simp: visitExpression_def split: prod.splits intro!: ssa_emit_no_return dest: newVar_no_return)

lemma visitComponent_no_return: "visitComponent b n = (d, b1) \<Longrightarrow> no_return b \<Longrightarrow> no_return b1"
  by (auto simp: visitComponent_def Let_def split: prod.splits intro!: ssa_emit_no_return dest: newVar_no_return)


lemma visit_no_return:
  "\<forall>r b'. visitNode b n = Inr (r, b') \<longrightarrow> no_return b \<longrightarrow> no_return b'"
  "\<forall>rs b'. visitNodes b cs = Inr (rs, b') \<longrightarrow> no_return b \<longrightarrow> no_return b'"
  "\<forall>b'. visitElementChildren b d cs' = Inr b' \<longrightarrow> no_return b \<longrightarrow> no_return b'"
proof (induction b n and b cs and b d cs' rule: visitNode_visitNodes_visitElementChildren.induct)
  case (1 b ty tg at ch v e s l)
  show ?case
  proof (intro allI impI)
    fix r b' assume eq: "visitNode b (ASTNode ty tg at ch v e s l) = Inr (r, b')" and nr: "no_return b"
    show "no_return b'"
    proof (cases ty)
      case Program
      show ?thesis
      proof (cases ch)
        case None
        with eq Program nr show ?thesis by simp
      next
        case (Some cs)
        with eq Program obtain rs where "visitNodes b cs = Inr (rs, b')"
          by (auto split: sum.splits)
        with 1(1)[OF Program Some] nr show ?thesis by blast
      qed
    next
      case Element
      from eq Element have tg: "\<not> (tg = None \<or> tg = Some [])"
        by (auto split: if_splits)
      obtain d b1 where nv: "newVar b ''el'' = (d, b1)" by (cases "newVar b ''el''")
      let ?b2 = "ssa_emit b1 \<lparr>op = CreateElement, dest = Some d, args = Some [tg],
                   ivalue = JUndefined,
                   metadata = Some [(''tag'', of_string_option tg), (''isStatic'', of_bool_option s)],
                   blockId = None\<rparr>"
      let ?b3 = "case at of None \<Rightarrow> ?b2 | Some kvs \<Rightarrow> visitAttributes ?b2 d kvs"
      have n2: "no_return ?b2"
        using newVar_no_return[OF nv nr] by (intro ssa_emit_no_return) simp_all
      have n3: "no_return ?b3"
        using n2 by (cases at) (simp_all add: visitAttributes_no_return)
      show ?thesis
      proof (cases ch)
        case None
        with eq Element tg nv have "b' = ?b3" by (simp add: Let_def)
        with n3 show ?thesis by simp
      next
        case (Some cs)
        with eq Element tg nv have "visitElementChildren ?b3 d cs = Inr b'"
          by (simp add: Let_def split: sum.splits)
        with 1(2)[OF Element tg nv[symmetric] refl refl Some] n3 show ?thesis by blast
      qed
    next
      case Component
      with eq nr show ?thesis by (auto dest: visitComponent_no_return)
    next
      case Text
      with eq nr show ?thesis by (auto dest: visitText_no_return)
    next
      case Expression
      with eq nr show ?thesis by (auto dest: visitExpression_no_return)
    next
      case Fragment
      obtain d b1 where nv: "newVar b ''frag'' = (d, b1)" by (cases "newVar b ''frag''")
      have n1: "no_return b1" by (rule newVar_no_return[OF nv nr])
      show ?thesis
      proof (cases ch)
        case None
        with eq Fragment nv n1 show ?thesis by (auto intro!: ssa_emit_no_return)
      next
        case (Some cs)
        with eq Fragment nv obtain rs b2 where v: "visitNodes b1 cs = Inr (rs, b2)"
          and b': "b' = ssa_emit b2 \<lparr>op = Alloc, dest = Some d, args = Some (map Some rs),
                      ivalue = JUndefined, metadata = Some [(''type'', JString ''fragment'')],
                      blockId = None\<rparr>"
          by (auto split: sum.splits)
        from 1(3)[OF Fragment nv[symmetric] Some] v n1 have "no_return b2" by blast
        with b' show ?thesis by (auto intro!: ssa_emit_no_return)
      qed
    qed
  qed
next
  case (2 b)
  then show ?case by simp
next
  case (3 b c cs)
  show ?case
  proof (intro allI impI)
    fix rs b' assume eq: "visitNodes b (c # cs) = Inr (rs, b')" and nr: "no_return b"
    from eq obtain r b1 rs' where v1: "visitNode b c = Inr (r, b1)"
      and v2: "visitNodes b1 cs = Inr (rs', b')"
      by (auto split: sum.splits)
    from 3(1) v1 nr have "no_return b1" by blast
    with 3(2)[OF v1 refl] v2 show "no_return b'" by blast
  qed
next
  case (4 b d)
  then show ?case by simp
next
  case (5 b d child cs)
  show ?case
  proof (intro allI impI)
    fix b' assume eq: "visitElementChildren b d (child # cs) = Inr b'" and nr: "no_return b"
    from eq obtain r b1 where v1: "visitNode b child = Inr (r, b1)"
      by (auto split: sum.splits)
    let ?b2 = "if r \<noteq> [] then ssa_emit b1 \<lparr>op = AppendChild, dest = None,
                  args = Some [Some d, Some r], ivalue = JUndefined, metadata = None,
                  blockId = None\<rparr> else b1"
    from eq v1 have v2: "visitElementChildren ?b2 d cs = Inr b'" by simp
    from 5(1) v1 nr have "no_return b1" by blast
    then have "no_return ?b2" by (auto intro!: ssa_emit_no_return)
    with 5(2)[OF v1 refl] v2 show "no_return b'" by blast
  qed
qed

lemma new_SSABuilder_no_return: "no_return new_SSABuilder"
  by (simp add: new_SSABuilder_def createBlock_def no_return_def all_instructions_def Let_def)

lemma optimize_no_return: "no_return b \<Longrightarrow> no_return (optimize b)"
proof -
  assume nr: "no_return b"
  have "op ` set (all_instructions (ir (optimize b)))
          = fst ` set (map (\<lambda>i. (op i, dest i)) (all_instructions (ir (optimize b))))"
    by force
  also have "\<dots> = fst ` set (map (\<lambda>i. (op i, dest i))
                 (filter (dce_keep (used_names (all_instructions (ir b)))) (all_instructions (ir b))))"
    by (simp only: optimize_shape)
  also have "\<dots> \<subseteq> op ` set (all_instructions (ir b))"
    by force
  finally show ?thesis using nr by (auto simp: no_return_def)
qed

lemma buildSSA_no_return:
  "buildSSA ast = Inr i \<Longrightarrow> inst \<in> set (all_instructions i) \<Longrightarrow> op inst \<noteq> Return"
proof -
  assume b: "buildSSA ast = Inr i" and m: "inst \<in> set (all_instructions i)"
  from b obtain r b1 where v: "visitNode new_SSABuilder ast = Inr (r, b1)" and i: "i = ir (optimize b1)"
    by (auto simp: buildSSA_def build_def split: sum.splits)
  from visit_no_return(1)[of new_SSABuilder ast] v new_SSABuilder_no_return have "no_return b1"
    by blast
  then have "no_return (optimize b1)" by (rule optimize_no_return)
  with m i show ?thesis by (auto simp: no_return_def)
qed

section \<open>Claims about the whole pipeline\<close>

text \<open>
  C1 (the code breaks it). \<open>compile\<close> of \<open><div>hi</div>\<close>, whose Program
  produces the value \<open>el0\<close> (renamed \<open>a\<close>), emits a \<open>render\<close> function whose body
  builds the node and ends without returning it: \<open>build\<close> drops the name that
  \<open>visitProgram\<close> computes, and the builder never emits the \<open>return\<close> instruction that
  the generator knows how to print (\<open>buildSSA_no_return\<close>).
\<close>

theorem compile_render_returns_nothing:
  \<open>compile ''<div>hi</div>'' =
     Some (Inr ''(function(h, mount, patch) {"use strict";const _cache = new Map();return (function render(props, state) {const a = h('div', {});const b = "hi";if (!a.children) a.children = [];a.children.push(b);});})(h, mount, patch);'')\<close>
  by code_simp



end
